theory Spec2Isabelle
  imports Complex_Main "HOL-Library.Sublist"
begin

section \<open>Data model of the flight board (src/index.jsx)\<close>

text \<open>
  The flight records of \<^verbatim>\<open>src/index.jsx\<close> are created only by
  \<^verbatim>\<open>generateMockFlight\<close>, which draws the status and the airport codes from fixed
  arrays of string literals. The model keeps these as enumerations together with the
  string each value stands for; the strings are what the search and the chart labels see.
  A JavaScript string is modelled as a \<^typ>\<open>string\<close> whose characters are the code
  units \<open>0..255\<close> (the Latin-1 range of UTF-16).
\<close>

datatype status = OnTime | Delayed | Departed | Arrived | Cancelled

fun status_str :: "status \<Rightarrow> string" where
  "status_str OnTime = ''On Time''"
| "status_str Delayed = ''Delayed''"
| "status_str Departed = ''Departed''"
| "status_str Arrived = ''Arrived''"
| "status_str Cancelled = ''Cancelled''"

datatype airport = JFK | LHR | DXB | NRT | SYD | FRA | CDG | SIN | LAX | PEK

fun airport_str :: "airport \<Rightarrow> string" where
  "airport_str JFK = ''JFK''"
| "airport_str LHR = ''LHR''"
| "airport_str DXB = ''DXB''"
| "airport_str NRT = ''NRT''"
| "airport_str SYD = ''SYD''"
| "airport_str FRA = ''FRA''"
| "airport_str CDG = ''CDG''"
| "airport_str SIN = ''SIN''"
| "airport_str LAX = ''LAX''"
| "airport_str PEK = ''PEK''"

record coord =
  lat :: real
  lon :: real

text \<open>The object literal returned by \<^verbatim>\<open>generateMockFlight\<close>, field by field.
  The field \<^verbatim>\<open>id\<close> is called \<open>flight_id\<close> here.\<close>

record flight =
  flight_id :: string
  flightNumber :: string
  origin :: airport
  destination :: airport
  status :: status
  isDelayed :: int
  estimatedArrival :: string
  actualDeparture :: string
  aircraftType :: string
  altitude :: int
  speed :: int
  gate :: int
  terminal :: string
  routeCoords :: "coord list"

section \<open>The environment: random numbers, the clock, platform formatting\<close>

text \<open>
  \<^verbatim>\<open>Math.random()\<close> and \<^verbatim>\<open>Date.now()\<close> are effects. The world holds the
  sequence of numbers the successive calls return and how many have been consumed; each
  call returns the next one and the advanced world. The clock readings are taken to be
  in the range of valid time values.
\<close>

record world =
  draws :: "nat \<Rightarrow> real"
  nd :: nat
  clock :: "nat \<Rightarrow> int"
  nc :: nat

definition Math_random :: "world \<Rightarrow> real \<times> world" where
  "Math_random w = (draws w (nd w), w\<lparr>nd := Suc (nd w)\<rparr>)"

definition Date_now :: "world \<Rightarrow> int \<times> world" where
  "Date_now w = (clock w (nc w), w\<lparr>nc := Suc (nc w)\<rparr>)"

text \<open>The contract of \<^verbatim>\<open>Math.random()\<close>: every number returned lies in \<open>[0, 1)\<close>.\<close>

definition unit_draws :: "world \<Rightarrow> bool" where
  "unit_draws w = (\<forall>i. 0 \<le> draws w i \<and> draws w i < 1)"

text \<open>
  Two built-ins whose output depends on the engine and the locale are parameters of the
  model: \<^verbatim>\<open>Number.prototype.toString(36)\<close> on a fraction, and
  \<^verbatim>\<open>Date.prototype.toLocaleTimeString\<close> on a time value in milliseconds.
\<close>

record platform =
  toString36 :: "real \<Rightarrow> string"
  toLocaleTimeString :: "int \<Rightarrow> string"

subsection \<open>Numbers\<close>

text \<open>
  A JavaScript number is a double: a real number of the form \<open>m * 2 ^ e\<close> with
  \<open>|m| < 2 ^ 53\<close> and \<open>e \<ge> -1074\<close>. A numeric literal and the result of every
  arithmetic operation is the double nearest to the exact value, the one with the even
  significand when two are equally near. The numbers of this program stay far below
  \<open>2 ^ 1024\<close>, so that no operation overflows; comparisons of doubles are exact.
\<close>

definition is_double :: "real \<Rightarrow> bool" where
  "is_double x = (\<exists>m e. x = of_int m * 2 powi e \<and> \<bar>m\<bar> < 2 ^ 53 \<and> - 1074 \<le> e)"

text \<open>The nearest integer, the even one at a tie.\<close>

definition round_even :: "real \<Rightarrow> int" where
  "round_even y =
     (let n = \<lfloor>y\<rfloor>; d = y - of_int n
      in if d < 1/2 then n else if 1/2 < d then n + 1 else if even n then n else n + 1)"

text \<open>The exponent of the binade of \<open>x\<close> (that of the subnormal numbers at the bottom) and
  the distance between neighbouring doubles there.\<close>

definition expo :: "real \<Rightarrow> int" where
  "expo x = max (- 1022) \<lfloor>log 2 \<bar>x\<bar>\<rfloor>"

definition ulp :: "real \<Rightarrow> real" where
  "ulp x = 2 powi (expo x - 52)"

definition round_double :: "real \<Rightarrow> real" where
  "round_double x = (if x = 0 then 0 else of_int (round_even (x / ulp x)) * ulp x)"

text \<open>The operators \<^verbatim>\<open>*\<close>, \<^verbatim>\<open>+\<close> and \<^verbatim>\<open>-\<close> on numbers.\<close>

definition fmul :: "real \<Rightarrow> real \<Rightarrow> real" where
  "fmul x y = round_double (x * y)"

definition fadd :: "real \<Rightarrow> real \<Rightarrow> real" where
  "fadd x y = round_double (x + y)"

definition fsub :: "real \<Rightarrow> real \<Rightarrow> real" where
  "fsub x y = round_double (x - y)"

text \<open>Every number \<^verbatim>\<open>Math.random()\<close> returns is a double.\<close>

definition double_draws :: "world \<Rightarrow> bool" where
  "double_draws w = (\<forall>i. is_double (draws w i))"

subsection \<open>String and number helpers\<close>

definition substr :: "nat \<Rightarrow> nat \<Rightarrow> string \<Rightarrow> string" where
  "substr start len s = take len (drop start s)"

definition substring :: "nat \<Rightarrow> nat \<Rightarrow> string \<Rightarrow> string" where
  "substring start end s = take (end - start) (drop start s)"

text \<open>\<^verbatim>\<open>toUpperCase\<close> is applied to the ASCII airline names only.\<close>

definition upper_char :: "char \<Rightarrow> char" where
  "upper_char c =
     (let n = (of_char c :: nat) in if 97 \<le> n \<and> n \<le> 122 then char_of (n - 32) else c)"

definition toUpperCase :: "string \<Rightarrow> string" where
  "toUpperCase s = map upper_char s"

text \<open>\<^verbatim>\<open>toLowerCase\<close> on the code units \<open>0..255\<close>: \<open>A..Z\<close> and the Latin-1
  capitals \<open>0xC0..0xDE\<close> (without the multiplication sign \<open>0xD7\<close>) move up by 32.\<close>

definition lower_char :: "char \<Rightarrow> char" where
  "lower_char c =
     (let n = (of_char c :: nat)
      in if (65 \<le> n \<and> n \<le> 90) \<or> (192 \<le> n \<and> n \<le> 222 \<and> n \<noteq> 215)
         then char_of (n + 32) else c)"

definition toLowerCase :: "string \<Rightarrow> string" where
  "toLowerCase s = map lower_char s"

text \<open>Decimal rendering of an integer, as a template literal renders a whole number.\<close>

definition digit_char :: "nat \<Rightarrow> char" where
  "digit_char d = char_of (48 + d)"

fun nat_toString :: "nat \<Rightarrow> string" where
  "nat_toString n =
     (if n < 10 then [digit_char n] else nat_toString (n div 10) @ [digit_char (n mod 10)])"

declare nat_toString.simps [simp del]

definition int_toString :: "int \<Rightarrow> string" where
  "int_toString i = (if i < 0 then CHR ''-'' # nat_toString (nat (- i)) else nat_toString (nat i))"

text \<open>\<^verbatim>\<open>new Date(t)\<close> clips the time value to a whole number of milliseconds,
  rounding towards zero.\<close>

definition TimeClip :: "real \<Rightarrow> int" where
  "TimeClip t = (if 0 \<le> t then \<lfloor>t\<rfloor> else \<lceil>t\<rceil>)"

text \<open>\<^verbatim>\<open>xs[Math.floor(r * xs.length)]\<close>. Under the contract of
  \<^verbatim>\<open>Math.random()\<close> the index is within the array.\<close>

definition pick :: "'a list \<Rightarrow> real \<Rightarrow> 'a" where
  "pick xs r = xs ! nat \<lfloor>fmul r (real (length xs))\<rfloor>"

section \<open>Mock flight generation\<close>

definition statuses :: "status list" where
  "statuses = [OnTime, Delayed, Departed, Arrived, Cancelled]"

definition airlines :: "string list" where
  "airlines = [''SkyLink'', ''GlobalAir'', ''Oceanic'', ''StarFlight'', ''ConnectAir'']"

definition airports :: "airport list" where
  "airports = [JFK, LHR, DXB, NRT, SYD, FRA, CDG, SIN, LAX, PEK]"

definition aircraftTypes :: "string list" where
  "aircraftTypes = [''Boeing 747'', ''Airbus A320'', ''Boeing 737'', ''Embraer 190'']"

text \<open>One route point: two draws, latitude first.\<close>

definition random_coord :: "world \<Rightarrow> coord \<times> world" where
  "random_coord w =
     (let (r1, w1) = Math_random w;
          (r2, w2) = Math_random w1
      in (\<lparr>lat = fsub (fmul r1 180) 90, lon = fsub (fmul r2 360) 180\<rparr>, w2))"

text \<open>
  \<^verbatim>\<open>generateMockFlight\<close> (lines 33-64). The draws are consumed in the order in which
  the source evaluates its expressions: the four \<^verbatim>\<open>const\<close> declarations first, then
  the properties of the object literal from top to bottom. The delay, the altitude and
  the speed take a draw only in the branch that calls \<^verbatim>\<open>Math.random()\<close>.
\<close>

definition generateMockFlight :: "platform \<Rightarrow> world \<Rightarrow> flight \<times> world" where
  "generateMockFlight p w0 =
     (let (r, w1) = Math_random w0;
          randomStatus = pick statuses r;
          (delay, w2) = (if randomStatus = Delayed
                         then (let (r, w) = Math_random w1 in (\<lfloor>fmul r 120\<rfloor> + 10, w))
                         else (0, w1));
          (now, w3) = Date_now w2;
          (r, w4) = Math_random w3;
          estimated = TimeClip (fadd (real_of_int now) (fmul (fmul r 3600000) 5));
          (now, w5) = Date_now w4;
          (r, w6) = Math_random w5;
          actual = TimeClip (fsub (real_of_int now) (fmul (fmul r 3600000) 5));
          (r_id, w7) = Math_random w6;
          (r_airline, w8) = Math_random w7;
          (r_number, w9) = Math_random w8;
          (r_origin, w10) = Math_random w9;
          (r_destination, w11) = Math_random w10;
          (r_aircraft, w12) = Math_random w11;
          (alt, w13) = (if randomStatus = Departed
                        then (let (r, w) = Math_random w12 in (\<lfloor>fmul r 40000\<rfloor>, w))
                        else (0, w12));
          (spd, w14) = (if randomStatus = Departed
                        then (let (r, w) = Math_random w13 in (\<lfloor>fmul r 600\<rfloor> + 300, w))
                        else (0, w13));
          (r_gate, w15) = Math_random w14;
          (r_terminal, w16) = Math_random w15;
          (c1, w17) = random_coord w16;
          (c2, w18) = random_coord w17;
          (c3, w19) = random_coord w18
      in (\<lparr>flight_id = substr 2 9 (toString36 p r_id),
           flightNumber = toUpperCase (substring 0 3 (pick airlines r_airline))
                          @ int_toString (\<lfloor>fmul r_number 900\<rfloor> + 100),
           origin = pick airports r_origin,
           destination = pick airports r_destination,
           status = randomStatus,
           isDelayed = delay,
           estimatedArrival = toLocaleTimeString p estimated,
           actualDeparture = toLocaleTimeString p actual,
           aircraftType = pick aircraftTypes r_aircraft,
           altitude = alt,
           speed = spd,
           gate = \<lfloor>fmul r_gate 50\<rfloor> + 1,
           terminal = [char_of (65 + \<lfloor>fmul r_terminal 5\<rfloor>)],
           routeCoords = [c1, c2, c3]\<rparr>, w19))"

text \<open>\<^verbatim>\<open>Array.from({ length: 50 }, generateMockFlight)\<close>: the generator is called
  once per index, in order.\<close>

fun Array_from :: "nat \<Rightarrow> platform \<Rightarrow> world \<Rightarrow> flight list \<times> world" where
  "Array_from 0 p w = ([], w)"
| "Array_from (Suc n) p w =
     (let (f, w1) = generateMockFlight p w;
          (fs, w2) = Array_from n p w1
      in (f # fs, w2))"

definition initial_flights :: "platform \<Rightarrow> world \<Rightarrow> flight list \<times> world" where
  "initial_flights p w = Array_from 50 p w"

section \<open>The five-second tick\<close>

text \<open>The callback of \<^verbatim>\<open>prevFlights.map\<close> (lines 305-314) on one record.\<close>

definition update_flight :: "world \<Rightarrow> flight \<Rightarrow> flight \<times> world" where
  "update_flight w f =
     (let (rand, w1) = Math_random w
      in if rand < round_double 0.1 \<and> status f = OnTime
         then (let (r, w2) = Math_random w1
               in (f\<lparr>status := Delayed, isDelayed := \<lfloor>fmul r 60\<rfloor> + 10\<rparr>, w2))
         else if rand > round_double 0.9 \<and> status f = Departed
         then (f\<lparr>status := Arrived, altitude := 0, speed := 0\<rparr>, w1)
         else (f, w1))"

text \<open>\<^verbatim>\<open>prevFlights.map\<close> visits the records from first to last.\<close>

fun map_update :: "world \<Rightarrow> flight list \<Rightarrow> flight list \<times> world" where
  "map_update w [] = ([], w)"
| "map_update w (f # fs) =
     (let (f', w1) = update_flight w f;
          (fs', w2) = map_update w1 fs
      in (f' # fs', w2))"

text \<open>
  The specification's words for the first step of a tick, on the draws \<open>ds\<close> from
  position \<open>n\<close> on: a record that is On Time becomes Delayed when its draw is below
  \<^verbatim>\<open>0.1\<close>, with a delay from the next draw; else a record that is Departed becomes
  Arrived, with altitude and speed 0, when its draw is above \<^verbatim>\<open>0.9\<close>; every other
  record passes through unchanged.
\<close>

fun process_records :: "(nat \<Rightarrow> real) \<Rightarrow> nat \<Rightarrow> flight list \<Rightarrow> flight list" where
  "process_records ds n [] = []"
| "process_records ds n (f # fs) =
     (if ds n < round_double 0.1 \<and> status f = OnTime
      then f\<lparr>status := Delayed, isDelayed := \<lfloor>fmul (ds (Suc n)) 60\<rfloor> + 10\<rparr>
             # process_records ds (n + 2) fs
      else if round_double 0.9 < ds n \<and> status f = Departed
      then f\<lparr>status := Arrived, altitude := 0, speed := 0\<rparr> # process_records ds (Suc n) fs
      else f # process_records ds (Suc n) fs)"

text \<open>\<^verbatim>\<open>xs.slice(-n)\<close>: the last \<open>n\<close> elements, all of them when there are fewer.\<close>

definition slice_last :: "nat \<Rightarrow> 'a list \<Rightarrow> 'a list" where
  "slice_last n xs = drop (length xs - n) xs"

text \<open>\<^verbatim>\<open>if (Math.random() < 0.2) { newFlights.push(generateMockFlight()); }\<close>
  (lines 316-318).\<close>

definition push_new :: "platform \<Rightarrow> world \<Rightarrow> flight list \<Rightarrow> flight list \<times> world" where
  "push_new p w newFlights =
     (let (r, w1) = Math_random w
      in if r < round_double 0.2
         then (let (f, w2) = generateMockFlight p w1 in (newFlights @ [f], w2))
         else (newFlights, w1))"

text \<open>The state updater passed to \<^verbatim>\<open>setFlights\<close> (lines 304-320).\<close>

definition tick :: "platform \<Rightarrow> world \<Rightarrow> flight list \<Rightarrow> flight list \<times> world" where
  "tick p w prevFlights =
     (let (newFlights, w1) = map_update w prevFlights;
          (newFlights, w2) = push_new p w1 newFlights
      in (slice_last 50 newFlights, w2))"

text \<open>The interval fires the tick again and again on the state the previous tick left.\<close>

fun ticks :: "nat \<Rightarrow> platform \<Rightarrow> world \<Rightarrow> flight list \<Rightarrow> flight list \<times> world" where
  "ticks 0 p w fs = (fs, w)"
| "ticks (Suc n) p w fs = (let (fs', w') = ticks n p w fs in tick p w' fs')"

text \<open>The states the running page can be in: the initial fifty records, and whatever a
  tick makes of a state the page was in, with draws that obey the contract of
  \<^verbatim>\<open>Math.random()\<close>.\<close>

inductive reachable :: "platform \<Rightarrow> flight list \<Rightarrow> bool" for p :: platform where
  seed: "unit_draws w \<Longrightarrow> reachable p (fst (initial_flights p w))"
| step: "reachable p fs \<Longrightarrow> unit_draws w \<Longrightarrow> reachable p (fst (tick p w fs))"

section \<open>Label wrapping\<close>

text \<open>\<^verbatim>\<open>wrapLabel\<close> returns its argument when that is short, an array of lines
  otherwise. Its callers pass strings only (object keys), so the argument is a string here.\<close>

datatype label = Str string | Lines "string list"

definition maxLength :: nat where
  "maxLength = 16"

text \<open>\<^verbatim>\<open>s.split(' ')\<close>: the pieces between the separators, empty pieces included.\<close>

fun split_on :: "char \<Rightarrow> string \<Rightarrow> string \<Rightarrow> string list" where
  "split_on d acc [] = [rev acc]"
| "split_on d acc (c # cs) =
     (if c = d then rev acc # split_on d [] cs else split_on d (c # acc) cs)"

definition split :: "char \<Rightarrow> string \<Rightarrow> string list" where
  "split d s = split_on d [] s"

text \<open>\<^verbatim>\<open>trim\<close> removes white space and line terminators at both ends; among the
  code units \<open>0..255\<close> these are tab, LF, VT, FF, CR, space and the no-break space.\<close>

definition is_space :: "char \<Rightarrow> bool" where
  "is_space c = ((of_char c :: nat) \<in> {9, 10, 11, 12, 13, 32, 160})"

definition trim :: "string \<Rightarrow> string" where
  "trim s = rev (dropWhile is_space (rev (dropWhile is_space s)))"

text \<open>The separator \<^verbatim>\<open>(currentLine ? ' ' : '')\<close>.\<close>

definition sep :: "string \<Rightarrow> string" where
  "sep currentLine = (if currentLine \<noteq> [] then '' '' else [])"

text \<open>\<^verbatim>\<open>if (currentLine) lines.push(currentLine.trim())\<close>.\<close>

definition push_line :: "string list \<Rightarrow> string \<Rightarrow> string list" where
  "push_line lines currentLine = (if currentLine \<noteq> [] then lines @ [trim currentLine] else lines)"

text \<open>The \<^verbatim>\<open>for (const word of words)\<close> loop (lines 84-97), with the two variables it
  updates as arguments.\<close>

fun wrap_loop :: "string list \<Rightarrow> string \<Rightarrow> string list \<Rightarrow> string list \<times> string" where
  "wrap_loop lines currentLine [] = (lines, currentLine)"
| "wrap_loop lines currentLine (word # words) =
     (if length (currentLine @ sep currentLine @ word) > maxLength
      then wrap_loop (push_line lines currentLine) word words
      else wrap_loop lines (currentLine @ sep currentLine @ word) words)"

definition wrapLabel :: "string \<Rightarrow> label" where
  "wrapLabel label =
     (if length label \<le> maxLength then Str label
      else (let words = split CHR '' '' label;
                (lines, currentLine) = wrap_loop [] [] words
            in Lines (push_line lines currentLine)))"

text \<open>The array the function returns when the loop starts from the given lines and current
  line.\<close>

definition wrap_lines :: "string list \<Rightarrow> string \<Rightarrow> string list \<Rightarrow> string list" where
  "wrap_lines lines currentLine words =
     push_line (fst (wrap_loop lines currentLine words)) (snd (wrap_loop lines currentLine words))"

text \<open>
  The specification's words for the wrapping: words are appended to the current line
  until adding the next word would exceed 16 characters; then a new line starts with
  that word. The lines are those built this way, before empty ones are left out and the
  others trimmed.
\<close>

fun greedy_lines :: "string \<Rightarrow> string list \<Rightarrow> string list" where
  "greedy_lines currentLine [] = [currentLine]"
| "greedy_lines currentLine (word # words) =
     (if 16 < length (currentLine @ sep currentLine @ word)
      then currentLine # greedy_lines word words
      else greedy_lines (currentLine @ sep currentLine @ word) words)"




section \<open>Chart data\<close>

text \<open>
  The accumulator objects of the two \<^verbatim>\<open>reduce\<close> calls are association lists with
  distinct keys, in the order in which the keys were first assigned. That is the order in
  which \<^verbatim>\<open>Object.keys\<close>, \<^verbatim>\<open>Object.values\<close> and \<^verbatim>\<open>Object.entries\<close>
  enumerate them: the keys are status and airport names, none of which is an array
  index or a property inherited from \<^verbatim>\<open>Object.prototype\<close>.
\<close>

type_synonym counts = "(string \<times> nat) list"

text \<open>\<^verbatim>\<open>acc[k] = (acc[k] || 0) + 1\<close>.\<close>

fun bump :: "string \<Rightarrow> counts \<Rightarrow> counts" where
  "bump k [] = [(k, 0 + 1)]"
| "bump k ((k', c) # acc) = (if k' = k then (k', c + 1) # acc else (k', c) # bump k acc)"

definition primaryCyan :: string where "primaryCyan = ''#00BCD4''"
definition accentRed :: string where "accentRed = ''#F44336''"
definition accentAmber :: string where "accentAmber = ''#FFC107''"
definition accentGreen :: string where "accentGreen = ''#4CAF50''"

record chart =
  labels :: "label list"
  data :: "nat list"

record status_chart = chart +
  colors :: "string list"

definition statusCounts :: "flight list \<Rightarrow> counts" where
  "statusCounts flights = fold (\<lambda>flight acc. bump (status_str (status flight)) acc) flights []"

definition status_color :: "string \<Rightarrow> string" where
  "status_color s =
     (if s = ''On Time'' then accentAmber
      else if s = ''Delayed'' \<or> s = ''Cancelled'' then accentRed
      else if s = ''Arrived'' then accentGreen
      else if s = ''Departed'' then primaryCyan
      else ''#A0A0A0'')"

definition getFlightStatusData :: "flight list \<Rightarrow> status_chart" where
  "getFlightStatusData flights =
     \<lparr>labels = map wrapLabel (map fst (statusCounts flights)),
      data = map snd (statusCounts flights),
      colors = map status_color (map fst (statusCounts flights))\<rparr>"

definition airportCounts :: "flight list \<Rightarrow> counts" where
  "airportCounts flights =
     fold (\<lambda>flight acc. bump (airport_str (destination flight)) (bump (airport_str (origin flight)) acc))
          flights []"

text \<open>\<^verbatim>\<open>Array.prototype.sort\<close> with a comparator is a stable sort: insertion from the
  right, each element placed before the first one it does not come after.\<close>

fun insert_by :: "('a \<Rightarrow> 'a \<Rightarrow> int) \<Rightarrow> 'a \<Rightarrow> 'a list \<Rightarrow> 'a list" where
  "insert_by cmp x [] = [x]"
| "insert_by cmp x (y # ys) = (if cmp x y \<le> 0 then x # y # ys else y # insert_by cmp x ys)"

definition sort_by :: "('a \<Rightarrow> 'a \<Rightarrow> int) \<Rightarrow> 'a list \<Rightarrow> 'a list" where
  "sort_by cmp xs = foldr (insert_by cmp) xs []"

text \<open>The comparator \<^verbatim>\<open>([, countA], [, countB]) => countB - countA\<close>.\<close>

definition by_count_desc :: "string \<times> nat \<Rightarrow> string \<times> nat \<Rightarrow> int" where
  "by_count_desc a b = int (snd b) - int (snd a)"

definition sortedAirports :: "flight list \<Rightarrow> counts" where
  "sortedAirports flights = take 5 (sort_by by_count_desc (airportCounts flights))"

definition getTopAirportsData :: "flight list \<Rightarrow> chart" where
  "getTopAirportsData flights =
     \<lparr>labels = map (\<lambda>(airport, count). wrapLabel airport) (sortedAirports flights),
      data = map (\<lambda>(airport, count). count) (sortedAirports flights)\<rparr>"

text \<open>How often an airport occurs as origin or as destination.\<close>

definition movements :: "flight list \<Rightarrow> airport \<Rightarrow> nat" where
  "movements flights a =
     length (filter (\<lambda>f. origin f = a) flights) + length (filter (\<lambda>f. destination f = a) flights)"

text \<open>The keys the second \<^verbatim>\<open>reduce\<close> assigns, in the order in which it assigns them.\<close>

definition airport_keys :: "flight list \<Rightarrow> string list" where
  "airport_keys fs = concat (map (\<lambda>f. [airport_str (origin f), airport_str (destination f)]) fs)"

section \<open>Search\<close>

text \<open>\<^verbatim>\<open>s.includes(q)\<close>: \<open>q\<close> starts at some position of \<open>s\<close>.\<close>

fun includes_str :: "string \<Rightarrow> string \<Rightarrow> bool" where
  "includes_str [] q = (q = [])"
| "includes_str (c # s) q = (prefix q (c # s) \<or> includes_str s q)"

definition matches :: "string \<Rightarrow> flight \<Rightarrow> bool" where
  "matches searchTerm flight =
     (includes_str (toLowerCase (flightNumber flight)) (toLowerCase searchTerm) \<or>
      includes_str (toLowerCase (airport_str (origin flight))) (toLowerCase searchTerm) \<or>
      includes_str (toLowerCase (airport_str (destination flight))) (toLowerCase searchTerm) \<or>
      includes_str (toLowerCase (status_str (status flight))) (toLowerCase searchTerm))"

definition filteredFlights :: "string \<Rightarrow> flight list \<Rightarrow> flight list" where
  "filteredFlights searchTerm flights = filter (matches searchTerm) flights"

text \<open>Equality of strings up to the case of their letters.\<close>

definition same_up_to_case :: "string \<Rightarrow> string \<Rightarrow> bool" where
  "same_up_to_case s t = (toLowerCase s = toLowerCase t)"

text \<open>\<open>q\<close> is a substring of \<open>s\<close> up to the case of letters: some substring of \<open>s\<close>
  equals \<open>q\<close> up to case.\<close>

definition ci_substring :: "string \<Rightarrow> string \<Rightarrow> bool" where
  "ci_substring q s = (\<exists>u. sublist u s \<and> same_up_to_case u q)"

text \<open>The fields a tick never assigns.\<close>

definition same_details :: "flight \<Rightarrow> flight \<Rightarrow> bool" where
  "same_details f f' =
     (flight_id f' = flight_id f \<and> flightNumber f' = flightNumber f \<and>
      origin f' = origin f \<and> destination f' = destination f \<and>
      estimatedArrival f' = estimatedArrival f \<and> actualDeparture f' = actualDeparture f \<and>
      aircraftType f' = aircraftType f \<and> gate f' = gate f \<and> terminal f' = terminal f \<and>
      routeCoords f' = routeCoords f)"

section \<open>Sample inputs\<close>

text \<open>A platform, worlds whose draws are all equal, and the record of the search example,
  completed with values for its other fields.\<close>

definition demo_platform :: platform where
  "demo_platform = \<lparr>toString36 = (\<lambda>r. ''0.4fzyo82mvyr''), toLocaleTimeString = (\<lambda>t. ''12:00 PM'')\<rparr>"

definition constant_world :: "real \<Rightarrow> world" where
  "constant_world r = \<lparr>draws = (\<lambda>i. r), nd = 0, clock = (\<lambda>i. 0), nc = 0\<rparr>"

definition sample_flight :: flight where
  "sample_flight =
     \<lparr>flight_id = ''4fzyo82mv'', flightNumber = ''ABC123'', origin = JFK, destination = LHR,
      status = Delayed, isDelayed = 25, estimatedArrival = ''01:30 PM'',
      actualDeparture = ''09:10 AM'', aircraftType = ''Boeing 747'', altitude = 0, speed = 0,
      gate = 12, terminal = ''B'',
      routeCoords = [\<lparr>lat = 10, lon = 20\<rparr>, \<lparr>lat = 30, lon = 40\<rparr>, \<lparr>lat = 50, lon = 60\<rparr>]\<rparr>"

section \<open>Properties of the numbers\<close>

lemma round_even_of_int [simp]: "round_even (of_int n) = n"
  by (simp add: round_even_def)

lemma round_even_nonneg: "0 \<le> y \<Longrightarrow> 0 \<le> round_even y"
  by (auto simp: round_even_def Let_def)

lemma round_even_below: "y < of_int M - 1/2 \<Longrightarrow> round_even y \<le> M - 1"
proof -
  assume a: "y < of_int M - 1/2"
  have f: "of_int \<lfloor>y\<rfloor> \<le> y" by simp
  from a have "y < of_int M" by linarith
  then have "\<lfloor>y\<rfloor> < M" by (simp only: floor_less_iff)
  then have "\<lfloor>y\<rfloor> \<le> M - 1" by simp
  moreover have "y - of_int \<lfloor>y\<rfloor> \<ge> 1/2 \<Longrightarrow> \<lfloor>y\<rfloor> \<le> M - 2"
  proof -
    assume "y - of_int \<lfloor>y\<rfloor> \<ge> 1/2"
    with a have "of_int \<lfloor>y\<rfloor> < (of_int M :: real) - 1" by linarith
    then have "of_int \<lfloor>y\<rfloor> < (of_int (M - 1) :: real)" by simp
    then have "\<lfloor>y\<rfloor> < M - 1" by (simp only: of_int_less_iff)
    then show ?thesis by simp
  qed
  ultimately show ?thesis
    by (auto simp: round_even_def Let_def)
qed

lemma two_powi_powr: "(2::real) powi j = 2 powr (of_int j)"
  by (simp add: powr_real_of_int')

lemma expo_ge: "- 1022 \<le> expo x"
  by (simp add: expo_def)

lemma expo_less:
  assumes "x \<noteq> 0" "\<bar>x\<bar> < 2 powi j" "- 1022 < j"
  shows "expo x < j"
proof -
  from assms(1) have pos: "0 < \<bar>x\<bar>" by simp
  from assms(2) have "log 2 \<bar>x\<bar> < of_int j"
    using pos by (simp add: log_less_iff two_powi_powr)
  then have "\<lfloor>log 2 \<bar>x\<bar>\<rfloor> < j"
    by (simp add: floor_less_iff)
  with assms(3) show ?thesis by (simp add: expo_def)
qed

lemma expo_lower:
  assumes "x \<noteq> 0"
  shows "2 powi (expo x) \<le> \<bar>x\<bar> \<or> expo x = - 1022"
proof (cases "- 1022 \<le> \<lfloor>log 2 \<bar>x\<bar>\<rfloor>")
  case True
  then have e: "expo x = \<lfloor>log 2 \<bar>x\<bar>\<rfloor>" by (simp add: expo_def)
  from assms have pos: "0 < \<bar>x\<bar>" by simp
  have "of_int \<lfloor>log 2 \<bar>x\<bar>\<rfloor> \<le> log 2 \<bar>x\<bar>" by simp
  then have "2 powr (of_int \<lfloor>log 2 \<bar>x\<bar>\<rfloor>) \<le> \<bar>x\<bar>"
    using pos by (simp only: le_log_iff [symmetric])
  then show ?thesis by (simp add: e two_powi_powr)
next
  case False
  then show ?thesis by (simp add: expo_def)
qed

lemma ulp_pos: "0 < ulp x"
  by (simp add: ulp_def)

lemma round_double_id:
  assumes "\<bar>m\<bar> < 2 ^ 53" "- 1074 \<le> e"
  shows "round_double (of_int m * 2 powi e) = of_int m * 2 powi e"
proof (cases "m = 0")
  case True
  then show ?thesis by (simp add: round_double_def)
next
  case False
  let ?x = "of_int m * (2::real) powi e"
  have nz: "?x \<noteq> 0" using False by simp
  have "\<bar>?x\<bar> = of_int \<bar>m\<bar> * 2 powi e"
    by (simp add: abs_mult)
  also have "\<dots> < 2 ^ 53 * 2 powi e"
  proof -
    from assms(1) have "(of_int \<bar>m\<bar> :: real) < of_int (2 ^ 53)"
      by (simp only: of_int_less_iff)
    then show ?thesis by simp
  qed
  also have "\<dots> = 2 powi (53 + e)"
    by (simp add: power_int_add)
  finally have "\<bar>?x\<bar> < 2 powi (53 + e)" .
  then have "expo ?x < 53 + e"
    using nz assms(2) by (intro expo_less) simp_all
  then have d: "0 \<le> e - (expo ?x - 52)" by simp
  define d where "d = nat (e - (expo ?x - 52))"
  define u where "u = ulp ?x"
  have upos: "0 < u" by (simp add: u_def ulp_pos)
  have "e = (expo ?x - 52) + int d"
    using d by (simp add: d_def)
  then have "(2::real) powi e = 2 powi (expo ?x - 52) * 2 powi (int d)"
    by (metis power_int_add zero_neq_numeral)
  then have pe: "(2::real) powi e = u * 2 ^ d"
    by (simp add: u_def ulp_def)
  have "of_int m * (u * 2 ^ d) / u = of_int (m * 2 ^ d)"
    using upos by simp
  then have q: "round_even (of_int m * (u * 2 ^ d) / u) = m * 2 ^ d"
    by (simp only: round_even_of_int)
  have "round_double ?x = of_int (round_even (?x / u)) * u"
    using nz by (simp add: round_double_def u_def)
  also have "\<dots> = of_int (round_even (of_int m * (u * 2 ^ d) / u)) * u"
    by (simp only: pe)
  also have "\<dots> = of_int m * (u * 2 ^ d)"
    by (simp only: q) simp
  also have "\<dots> = ?x"
    by (simp only: pe)
  finally show ?thesis .
qed

lemma is_double_round: "is_double x \<Longrightarrow> round_double x = x"
  by (auto simp: is_double_def round_double_id)

lemma is_doubleI: "x = of_int m * 2 powi e \<Longrightarrow> \<bar>m\<bar> < 2 ^ 53 \<Longrightarrow> - 1074 \<le> e \<Longrightarrow> is_double x"
  by (auto simp: is_double_def)

lemma double_examples: "is_double 0" "is_double (1/16)" "is_double (1/4)" "is_double (1/2)"
    "is_double (15/4)" "is_double (5/4)" "is_double 30"
  by (rule is_doubleI [of _ 0 0], simp, simp, simp)
     (rule is_doubleI [of _ 1 "-4"], simp, simp, simp,
      rule is_doubleI [of _ 1 "-2"], simp, simp, simp,
      rule is_doubleI [of _ 1 "-1"], simp, simp, simp,
      rule is_doubleI [of _ 15 "-2"], simp, simp, simp,
      rule is_doubleI [of _ 5 "-2"], simp, simp, simp,
      rule is_doubleI [of _ 30 0], simp, simp, simp)


lemma expo_geq:
  assumes "x \<noteq> 0" "2 powi j \<le> \<bar>x\<bar>"
  shows "j \<le> expo x"
proof -
  from assms(1) have pos: "0 < \<bar>x\<bar>" by simp
  from assms(2) have "of_int j \<le> log 2 \<bar>x\<bar>"
    using pos by (simp add: le_log_iff two_powi_powr)
  then have "j \<le> \<lfloor>log 2 \<bar>x\<bar>\<rfloor>"
    by (simp add: le_floor_iff)
  then show ?thesis by (simp add: expo_def)
qed

lemma round_double_eval:
  assumes "x \<noteq> 0" "2 powi e \<le> \<bar>x\<bar>" "\<bar>x\<bar> < 2 powi (e + 1)" "- 1022 \<le> e"
  shows "round_double x = of_int (round_even (x / 2 powi (e - 52))) * 2 powi (e - 52)"
proof -
  have "e \<le> expo x" using assms(1,2) by (rule expo_geq)
  moreover have "expo x < e + 1" using assms(1,3,4) by (intro expo_less) simp_all
  ultimately have "expo x = e" by simp
  then show ?thesis using assms(1) by (simp add: round_double_def ulp_def)
qed

lemma round_double_tenth: "round_double (1/10) = 3602879701896397 / 2 ^ 55"
  by (subst round_double_eval [of _ "-4"]) (simp_all add: round_even_def Let_def)

lemma round_double_fifth: "round_double (1/5) = 3602879701896397 / 2 ^ 54"
  by (subst round_double_eval [of _ "-3"]) (simp_all add: round_even_def Let_def)

lemma round_double_nine_tenths: "round_double (9/10) = 8106479329266893 / 2 ^ 53"
  by (subst round_double_eval [of _ "-1"]) (simp_all add: round_even_def Let_def)

lemma double_below_one:
  assumes "is_double r" "r < 1"
  shows "r \<le> 1 - 1 / 2 ^ 53"
proof -
  from assms(1) obtain m e where r: "r = of_int m * 2 powi e" and m: "\<bar>m\<bar> < 2 ^ 53"
    by (auto simp: is_double_def)
  show ?thesis
  proof (cases "- 53 \<le> e")
    case True
    define d where "d = nat (e + 53)"
    have "e + 53 = int d" using True by (simp add: d_def)
    then have "(2::real) powi (e + 53) = 2 ^ d"
      by (metis power_int_of_nat)
    moreover have "(2::real) powi (e + 53) = 2 powi e * 2 ^ 53"
      by (simp add: power_int_add)
    ultimately have "r * 2 ^ 53 = of_int (m * 2 ^ d)"
      by (simp add: r)
    moreover from assms(2) have "r * 2 ^ 53 < 2 ^ 53" by simp
    ultimately have "(of_int (m * 2 ^ d) :: real) < of_int (2 ^ 53)" by simp
    then have "m * 2 ^ d < 2 ^ 53" by (simp only: of_int_less_iff)
    then have "m * 2 ^ d \<le> 2 ^ 53 - 1" by simp
    then have "(of_int (m * 2 ^ d) :: real) \<le> of_int (2 ^ 53 - 1)" by (simp only: of_int_le_iff)
    with \<open>r * 2 ^ 53 = of_int (m * 2 ^ d)\<close> have "r * 2 ^ 53 \<le> 2 ^ 53 - 1" by simp
    then show ?thesis by (simp add: field_simps)
  next
    case False
    then have "e \<le> - 54" by simp
    then have "(2::real) powi e \<le> 2 powi (- 54)"
      by (intro power_int_increasing) simp_all
    moreover have "r \<le> of_int \<bar>m\<bar> * 2 powi e"
      by (simp add: r mult_right_mono)
    moreover from m have "(of_int \<bar>m\<bar> :: real) < of_int (2 ^ 53)" by (simp only: of_int_less_iff)
    then have "of_int \<bar>m\<bar> * (2::real) powi e \<le> 2 ^ 53 * 2 powi e"
      by (intro mult_right_mono) simp_all
    moreover have "(2::real) ^ 53 * 2 powi e \<le> 2 ^ 53 * 2 powi (- 54)"
      using \<open>(2::real) powi e \<le> 2 powi (- 54)\<close> by (intro mult_left_mono) simp_all
    ultimately have "r \<le> 2 ^ 53 * 2 powi (- 54)"
      by linarith
    then show ?thesis by simp
  qed
qed


lemma round_double_unit_scaled:
  fixes r :: real and n :: nat
  assumes r: "0 \<le> r" "r \<le> 1 - 1 / 2 ^ 53" and n: "0 < n" "n \<le> 2 ^ 53"
  shows "0 \<le> round_double (r * real n) \<and> round_double (r * real n) < real n"
proof (cases "r * real n = 0")
  case True
  then show ?thesis using n by (simp add: round_double_def)
next
  case False
  define y where "y = r * real n"
  from False have "r \<noteq> 0" by auto
  with r(1) have "0 < r" by simp
  then have ypos: "0 < y" using n(1) by (simp add: y_def)
  have "r * real n \<le> (1 - 1 / 2 ^ 53) * real n"
    using r(2) by (intro mult_right_mono) simp_all
  then have yle: "y \<le> real n - real n / 2 ^ 53"
    by (simp add: y_def algebra_simps)
  have "0 < real n / 2 ^ 53" using n(1) by simp
  with yle have yn: "y < real n" by linarith
  have "real n \<le> real (2 ^ 53)" using n(2) by (simp only: of_nat_le_iff)
  then have n53: "real n \<le> 2 ^ 53" by simp
  define e where "e = expo y"
  define u where "u = (2::real) powi (e - 52)"
  have upos: "0 < u" by (simp add: u_def)
  have "\<bar>y\<bar> < 2 powi 53" using ypos yn n53 by simp
  then have "e < 53" unfolding e_def using ypos by (intro expo_less) simp_all
  define d where "d = nat (52 - e)"
  have "(e - 52) + int d = 0" using \<open>e < 53\<close> by (simp add: d_def)
  then have "(2::real) powi (e - 52) * 2 powi (int d) = 2 powi 0"
    by (metis power_int_add zero_neq_numeral)
  then have ud: "u * 2 ^ d = 1" by (simp add: u_def)
  have "(2::real) powi e = 2 powi 52 * 2 powi (e - 52)"
    by (metis power_int_add zero_neq_numeral add_diff_cancel_left' add.commute diff_add_cancel)
  then have pe: "(2::real) powi e = 2 ^ 52 * u" by (simp add: u_def)
  have "2 powi e < real n"
  proof -
    from expo_lower [of y] ypos have "2 powi e \<le> \<bar>y\<bar> \<or> e = - 1022"
      by (simp add: e_def)
    then show ?thesis
    proof
      assume "2 powi e \<le> \<bar>y\<bar>"
      with ypos yn show ?thesis by simp
    next
      assume "e = - 1022"
      then have "(2::real) powi e \<le> 2 powi (- 1)"
        by (intro power_int_increasing) simp_all
      also have "\<dots> < 1" by simp
      also have "1 \<le> real n" using n(1) by simp
      finally show ?thesis .
    qed
  qed
  then have "2 ^ 52 * u * 2 ^ d < real n * 2 ^ d"
    by (simp add: pe)
  then have big: "2 ^ 52 < real n * 2 ^ d"
    using ud by (simp add: mult.assoc)
  have div: "y / u = y * 2 ^ d"
    using ud upos by (simp add: field_simps)
  have "y * 2 ^ d \<le> (real n - real n / 2 ^ 53) * 2 ^ d"
    using yle by (intro mult_right_mono) simp_all
  also have "\<dots> = real n * 2 ^ d - (real n * 2 ^ d) / 2 ^ 53"
    by (simp add: algebra_simps)
  also have "\<dots> < real n * 2 ^ d - 1 / 2"
    using big by simp
  finally have "y / u < of_int (int n * 2 ^ d) - 1 / 2"
    by (simp add: div)
  then have "round_even (y / u) \<le> int n * 2 ^ d - 1"
    by (rule round_even_below)
  then have "(of_int (round_even (y / u)) :: real) \<le> of_int (int n * 2 ^ d - 1)"
    by (simp only: of_int_le_iff)
  then have "of_int (round_even (y / u)) * u \<le> of_int (int n * 2 ^ d - 1) * u"
    using upos by (intro mult_right_mono) simp_all
  also have "\<dots> = real n * (u * 2 ^ d) - u"
    by (simp add: algebra_simps)
  also have "\<dots> < real n"
    using upos by (simp add: ud)
  finally have upper: "of_int (round_even (y / u)) * u < real n" .
  have "0 \<le> y / u" using ypos upos by simp
  then have "0 \<le> round_even (y / u)" by (rule round_even_nonneg)
  then have lower: "0 \<le> of_int (round_even (y / u)) * u"
    using upos by simp
  have "round_double y = of_int (round_even (y / u)) * u"
    using ypos by (simp add: round_double_def ulp_def u_def e_def)
  with lower upper show ?thesis by (simp add: y_def)
qed

lemma round_double_zero [simp]: "round_double 0 = 0"
  by (simp add: round_double_def)

lemma fmul_zero [simp]: "fmul 0 y = 0"
  by (simp add: fmul_def)

lemma floor_fmul_unit:
  fixes n :: nat
  assumes "is_double r" "0 \<le> r" "r < 1" "0 < n" "n \<le> 2 ^ 53"
  shows "0 \<le> \<lfloor>fmul r (real n)\<rfloor> \<and> \<lfloor>fmul r (real n)\<rfloor> < int n"
proof -
  from assms(1,3) have "r \<le> 1 - 1 / 2 ^ 53"
    by (rule double_below_one)
  with assms(2) have "0 \<le> round_double (r * real n) \<and> round_double (r * real n) < real n"
    using assms(4,5) by (intro round_double_unit_scaled)
  then show ?thesis
    by (simp add: fmul_def floor_less_iff)
qed

section \<open>Properties of the tick\<close>

lemma length_slice_last: "length (slice_last n xs) \<le> n"
  by (simp add: slice_last_def)

lemma length_tick: "length (fst (tick p w fs)) \<le> 50"
  by (simp add: tick_def split_beta Let_def length_slice_last)

text \<open>
  Claim C1. Whatever the record sequence before it and whatever the random draws, a tick
  leaves at most 50 records; hence the bound holds after each tick of any run of ticks.
\<close>

theorem tick_capacity:
  "length (fst (tick p w fs)) \<le> 50 \<and> length (fst (ticks (Suc n) p w fs)) \<le> 50"
  by (simp add: length_tick split_beta)

lemma Math_random_simps [simp]:
  "fst (Math_random w) = draws w (nd w)"
  "draws (snd (Math_random w)) = draws w"
  "nd (snd (Math_random w)) = Suc (nd w)"
  by (simp_all add: Math_random_def)

lemma update_flight_draws [simp]: "draws (snd (update_flight w f)) = draws w"
  by (simp add: update_flight_def split_beta Let_def)

lemma map_update_draws [simp]: "draws (snd (map_update w fs)) = draws w"
  by (induction fs arbitrary: w) (simp_all add: split_beta)

lemma map_update_rel:
  "list_all2 (\<lambda>f f'. \<exists>w'. draws w' = draws w \<and> f' = fst (update_flight w' f)) fs (fst (map_update w fs))"
proof (induction fs arbitrary: w)
  case Nil
  show ?case by simp
next
  case (Cons f fs)
  from Cons.IH [of "snd (update_flight w f)"] show ?case
    by (auto simp: split_beta)
qed

lemma gen_altitude_speed:
  "status (fst (generateMockFlight p w)) \<noteq> Departed \<Longrightarrow>
     altitude (fst (generateMockFlight p w)) = 0 \<and> speed (fst (generateMockFlight p w)) = 0"
  by (simp add: generateMockFlight_def split_beta Let_def)

lemma gen_delay:
  "isDelayed (fst (generateMockFlight p w)) > 0 \<Longrightarrow> status (fst (generateMockFlight p w)) = Delayed"
  by (simp add: generateMockFlight_def split_beta Let_def split: if_splits)

lemma update_flight_same_details: "same_details f (fst (update_flight w f))"
  by (simp add: update_flight_def same_details_def split_beta Let_def)

lemma map_update_same_details: "list_all2 same_details fs (fst (map_update w fs))"
  by (induction fs arbitrary: w) (simp_all add: split_beta update_flight_same_details)

lemma length_map_update [simp]: "length (fst (map_update w fs)) = length fs"
  by (induction fs arbitrary: w) (simp_all add: split_beta)

lemma push_new_cases:
  "fst (push_new p w us) = us \<or>
   (\<exists>w'. draws w' = draws w \<and> fst (push_new p w us) = us @ [fst (generateMockFlight p w')])"
proof (cases "draws w (nd w) < round_double 0.2")
  case True
  then have "fst (push_new p w us) = us @ [fst (generateMockFlight p (snd (Math_random w)))]"
    by (simp add: push_new_def split_beta)
  moreover have "draws (snd (Math_random w)) = draws w" by simp
  ultimately show ?thesis by blast
next
  case False
  then show ?thesis by (simp add: push_new_def split_beta)
qed

lemma tick_unfold:
  "fst (tick p w fs) = slice_last 50 (fst (push_new p (snd (map_update w fs)) (fst (map_update w fs))))"
  by (simp add: tick_def split_beta)

lemma pick_in_range:
  assumes "is_double r" "0 \<le> r" "r < 1" "xs \<noteq> []" "length xs \<le> 2 ^ 53"
  shows "nat \<lfloor>fmul r (real (length xs))\<rfloor> < length xs" and "pick xs r \<in> set xs"
proof -
  from assms have "0 \<le> \<lfloor>fmul r (real (length xs))\<rfloor> \<and> \<lfloor>fmul r (real (length xs))\<rfloor> < int (length xs)"
    by (intro floor_fmul_unit) simp_all
  then show "nat \<lfloor>fmul r (real (length xs))\<rfloor> < length xs"
    by linarith
  then show "pick xs r \<in> set xs"
    by (simp add: pick_def)
qed

lemma update_flight_fst:
  "fst (update_flight w f) =
     (if draws w (nd w) < round_double 0.1 \<and> status f = OnTime
      then f\<lparr>status := Delayed, isDelayed := \<lfloor>fmul (draws w (Suc (nd w))) 60\<rfloor> + 10\<rparr>
      else if round_double 0.9 < draws w (nd w) \<and> status f = Departed
      then f\<lparr>status := Arrived, altitude := 0, speed := 0\<rparr>
      else f)"
  by (simp add: update_flight_def split_beta)

lemma update_flight_nd:
  "nd (snd (update_flight w f)) =
     (if draws w (nd w) < round_double 0.1 \<and> status f = OnTime then nd w + 2 else Suc (nd w))"
  by (simp add: update_flight_def split_beta)

lemma map_update_process: "fst (map_update w fs) = process_records (draws w) (nd w) fs"
proof (induction fs arbitrary: w)
  case Nil
  show ?case by simp
next
  case (Cons f fs)
  have "fst (map_update w (f # fs)) = fst (update_flight w f) # fst (map_update (snd (update_flight w f)) fs)"
    by (simp add: split_beta)
  also have "fst (map_update (snd (update_flight w f)) fs)
               = process_records (draws w) (nd (snd (update_flight w f))) fs"
    using Cons.IH [of "snd (update_flight w f)"] by simp
  finally show ?case
    by (simp add: update_flight_fst update_flight_nd)
qed

lemma delay_range:
  assumes "is_double r" "0 \<le> r" "r < 1"
  shows "10 \<le> \<lfloor>fmul r 60\<rfloor> + 10 \<and> \<lfloor>fmul r 60\<rfloor> + 10 < 70"
  using floor_fmul_unit [OF assms, of 60] by simp

lemma update_flight_result:
  assumes "is_double (draws w (Suc (nd w)))" "0 \<le> draws w (Suc (nd w))" "draws w (Suc (nd w)) < 1"
  shows "(if draws w (nd w) < 3602879701896397 / 2 ^ 55 \<and> status f = OnTime
          then \<exists>d. 10 \<le> d \<and> d < 70 \<and> fst (update_flight w f) = f\<lparr>status := Delayed, isDelayed := d\<rparr>
          else if 8106479329266893 / 2 ^ 53 < draws w (nd w) \<and> status f = Departed
          then fst (update_flight w f) = f\<lparr>status := Arrived, altitude := 0, speed := 0\<rparr>
          else fst (update_flight w f) = f)"
proof -
  define d where "d = \<lfloor>fmul (draws w (Suc (nd w))) 60\<rfloor> + 10"
  have d: "10 \<le> d \<and> d < 70"
    unfolding d_def using assms by (rule delay_range)
  have lo: "round_double 0.1 = 3602879701896397 / 2 ^ 55"
    using round_double_tenth by simp
  have hi: "round_double 0.9 = 8106479329266893 / 2 ^ 53"
    using round_double_nine_tenths by simp
  show ?thesis
  proof (cases "draws w (nd w) < 3602879701896397 / 2 ^ 55 \<and> status f = OnTime")
    case True
    then have "fst (update_flight w f) = f\<lparr>status := Delayed, isDelayed := d\<rparr>"
      by (simp only: update_flight_fst lo d_def) simp
    with d True show ?thesis by auto
  next
    case False
    then show ?thesis
      by (simp only: update_flight_fst lo hi) auto
  qed
qed

lemma update_flight_exclusive:
  "status (fst (update_flight w f)) \<noteq> status f \<Longrightarrow>
     (status f = OnTime \<and> status (fst (update_flight w f)) = Delayed \<and>
        altitude (fst (update_flight w f)) = altitude f \<and> speed (fst (update_flight w f)) = speed f) \<or>
     (status f = Departed \<and> status (fst (update_flight w f)) = Arrived \<and>
        isDelayed (fst (update_flight w f)) = isDelayed f)"
  by (auto simp: update_flight_def split_beta Let_def split: if_splits)

lemma unit_draws_constant: "0 \<le> r \<Longrightarrow> r < 1 \<Longrightarrow> unit_draws (constant_world r)"
  by (simp add: unit_draws_def constant_world_def)

lemma double_draws_constant: "is_double r \<Longrightarrow> double_draws (constant_world r)"
  by (simp add: double_draws_def constant_world_def)

lemma process_records_rel:
  assumes "\<forall>i. is_double (ds i) \<and> 0 \<le> ds i \<and> ds i < 1"
  shows "list_all2
           (\<lambda>f f'. f' = f \<or>
              (status f = OnTime \<and> (\<exists>d. 10 \<le> d \<and> d < 70 \<and> f' = f\<lparr>status := Delayed, isDelayed := d\<rparr>)) \<or>
              (status f = Departed \<and> f' = f\<lparr>status := Arrived, altitude := 0, speed := 0\<rparr>))
           fs (process_records ds n fs)"
proof (induction fs arbitrary: n)
  case Nil
  show ?case by simp
next
  case (Cons f fs)
  from assms have "10 \<le> \<lfloor>fmul (ds (Suc n)) 60\<rfloor> + 10 \<and> \<lfloor>fmul (ds (Suc n)) 60\<rfloor> + 10 < 70"
    by (intro delay_range) simp_all
  then have "\<exists>d. 10 \<le> d \<and> d < 70 \<and>
      f\<lparr>status := Delayed, isDelayed := \<lfloor>fmul (ds (Suc n)) 60\<rfloor> + 10\<rparr> = f\<lparr>status := Delayed, isDelayed := d\<rparr>"
    by blast
  then show ?case
    using Cons.IH [of "n + 2"] Cons.IH [of "Suc n"] by simp
qed

text \<open>
  Claim C2. The records a tick computes from the existing ones, before it appends and
  truncates, are those of \<open>process_records\<close> on the tick's own draws, in order: draw
  \<open>rand\<close> for a record, then a second draw for the delay when the record becomes
  Delayed. A record that is On Time with \<open>rand\<close> below the double \<^verbatim>\<open>0.1\<close> becomes
  Delayed with a delay \<open>d\<close>, \<open>10 \<le> d < 70\<close>; otherwise a record that is Departed with
  \<open>rand\<close> above the double \<^verbatim>\<open>0.9\<close> becomes Arrived with altitude and speed 0; every
  other record is returned as it is. A record whose status changes took exactly one of
  the two transitions: the first leaves altitude and speed alone, the second leaves the
  delay alone. The two events cover a tenth of the unit interval each, up to the rounding
  of the two literals.
\<close>

theorem tick_record_transitions:
  assumes "unit_draws w" "double_draws w"
  shows "fst (map_update w fs) = process_records (draws w) (nd w) fs
       \<and> (\<exists>ns. length ns \<le> 1 \<and>
            fst (tick p w fs) = slice_last 50 (process_records (draws w) (nd w) fs @ ns))
       \<and> list_all2
           (\<lambda>f f'. f' = f \<or>
              (status f = OnTime \<and> (\<exists>d. 10 \<le> d \<and> d < 70 \<and> f' = f\<lparr>status := Delayed, isDelayed := d\<rparr>)) \<or>
              (status f = Departed \<and> f' = f\<lparr>status := Arrived, altitude := 0, speed := 0\<rparr>))
           fs (fst (map_update w fs))
       \<and> (if draws w (nd w) < 3602879701896397 / 2 ^ 55 \<and> status f = OnTime
          then \<exists>d. 10 \<le> d \<and> d < 70 \<and> fst (update_flight w f) = f\<lparr>status := Delayed, isDelayed := d\<rparr>
          else if 8106479329266893 / 2 ^ 53 < draws w (nd w) \<and> status f = Departed
          then fst (update_flight w f) = f\<lparr>status := Arrived, altitude := 0, speed := 0\<rparr>
          else fst (update_flight w f) = f)
       \<and> (status (fst (update_flight w f)) \<noteq> status f \<longrightarrow>
            (status f = OnTime \<and> status (fst (update_flight w f)) = Delayed \<and>
               altitude (fst (update_flight w f)) = altitude f \<and>
               speed (fst (update_flight w f)) = speed f) \<or>
            (status f = Departed \<and> status (fst (update_flight w f)) = Arrived \<and>
               isDelayed (fst (update_flight w f)) = isDelayed f))"
proof -
  from assms have ds: "\<forall>i. is_double (draws w i) \<and> 0 \<le> draws w i \<and> draws w i < 1"
    by (simp add: unit_draws_def double_draws_def)
  have a: "fst (map_update w fs) = process_records (draws w) (nd w) fs"
    by (rule map_update_process)
  have "fst (tick p w fs) = slice_last 50 (fst (push_new p (snd (map_update w fs)) (fst (map_update w fs))))"
    by (rule tick_unfold)
  moreover have "fst (push_new p (snd (map_update w fs)) (fst (map_update w fs))) = fst (map_update w fs) @ []
      \<or> (\<exists>g. fst (push_new p (snd (map_update w fs)) (fst (map_update w fs))) = fst (map_update w fs) @ [g])"
    using push_new_cases [of p "snd (map_update w fs)" "fst (map_update w fs)"] by auto
  ultimately have "\<exists>ns. length ns \<le> 1 \<and> fst (tick p w fs) = slice_last 50 (fst (map_update w fs) @ ns)"
    by (metis One_nat_def length_Cons list.size(3) le_refl zero_le)
  then have b: "\<exists>ns. length ns \<le> 1 \<and>
      fst (tick p w fs) = slice_last 50 (process_records (draws w) (nd w) fs @ ns)"
    by (simp only: a)
  have c: "list_all2
           (\<lambda>f f'. f' = f \<or>
              (status f = OnTime \<and> (\<exists>d. 10 \<le> d \<and> d < 70 \<and> f' = f\<lparr>status := Delayed, isDelayed := d\<rparr>)) \<or>
              (status f = Departed \<and> f' = f\<lparr>status := Arrived, altitude := 0, speed := 0\<rparr>))
           fs (fst (map_update w fs))"
    unfolding a using ds by (rule process_records_rel)
  from ds have "is_double (draws w (Suc (nd w)))" "0 \<le> draws w (Suc (nd w))" "draws w (Suc (nd w)) < 1"
    by simp_all
  then have d: "(if draws w (nd w) < 3602879701896397 / 2 ^ 55 \<and> status f = OnTime
          then \<exists>d. 10 \<le> d \<and> d < 70 \<and> fst (update_flight w f) = f\<lparr>status := Delayed, isDelayed := d\<rparr>
          else if 8106479329266893 / 2 ^ 53 < draws w (nd w) \<and> status f = Departed
          then fst (update_flight w f) = f\<lparr>status := Arrived, altitude := 0, speed := 0\<rparr>
          else fst (update_flight w f) = f)"
    by (rule update_flight_result)
  from a b c d update_flight_exclusive [of w f] show ?thesis
    by (intro conjI impI) assumption+
qed

lemma update_flight_altitude_speed:
  assumes "status f \<noteq> Departed \<longrightarrow> altitude f = 0 \<and> speed f = 0"
  shows "status (fst (update_flight w f)) \<noteq> Departed \<longrightarrow>
           altitude (fst (update_flight w f)) = 0 \<and> speed (fst (update_flight w f)) = 0"
  using assms by (auto simp: update_flight_def split_beta Let_def)

lemma update_flight_delay:
  assumes "0 < isDelayed f \<longrightarrow> status f = Delayed"
  shows "0 < isDelayed (fst (update_flight w f)) \<longrightarrow> status (fst (update_flight w f)) = Delayed"
  using assms by (auto simp: update_flight_def split_beta Let_def)

lemma Array_from_elems:
  "f \<in> set (fst (Array_from n p w)) \<Longrightarrow> \<exists>w'. f = fst (generateMockFlight p w')"
  by (induction n arbitrary: w) (auto simp: split_beta)

lemma set_slice_last: "set (slice_last n xs) \<subseteq> set xs"
  by (simp add: slice_last_def set_drop_subset)

lemma tick_elems:
  assumes "f' \<in> set (fst (tick p w fs))"
  shows "(\<exists>f \<in> set fs. \<exists>w'. f' = fst (update_flight w' f)) \<or> (\<exists>w'. f' = fst (generateMockFlight p w'))"
proof -
  let ?us = "fst (map_update w fs)"
  let ?all = "fst (push_new p (snd (map_update w fs)) ?us)"
  from assms have "f' \<in> set ?all"
    using set_slice_last [of 50 ?all] by (auto simp: tick_unfold)
  moreover have "?all = ?us \<or> (\<exists>w'. ?all = ?us @ [fst (generateMockFlight p w')])"
    using push_new_cases [of p "snd (map_update w fs)" ?us] by blast
  ultimately have "f' \<in> set ?us \<or> (\<exists>w'. f' = fst (generateMockFlight p w'))"
    by auto
  moreover have "f' \<in> set ?us \<Longrightarrow> \<exists>f \<in> set fs. \<exists>w'. f' = fst (update_flight w' f)"
  proof -
    assume "f' \<in> set ?us"
    then obtain i where i: "i < length ?us" "?us ! i = f'"
      by (auto simp: in_set_conv_nth)
    with map_update_rel [of w fs] obtain w' where "f' = fst (update_flight w' (fs ! i))"
      by (auto simp: list_all2_conv_all_nth)
    moreover from i have "fs ! i \<in> set fs" by simp
    ultimately show ?thesis by blast
  qed
  ultimately show ?thesis by blast
qed

text \<open>
  Claim C3. In every reachable state (the initial fifty records, and the state after any
  tick) a record whose status is not Departed has altitude 0 and speed 0.
\<close>

theorem altitude_speed_only_when_departed:
  assumes "reachable p fs"
  shows "\<forall>f \<in> set fs. status f \<noteq> Departed \<longrightarrow> altitude f = 0 \<and> speed f = 0"
  using assms
proof (induction rule: reachable.induct)
  case (seed w)
  show ?case
  proof
    fix f assume "f \<in> set (fst (initial_flights p w))"
    then obtain w' where "f = fst (generateMockFlight p w')"
      using Array_from_elems [of f 50 p w] by (auto simp: initial_flights_def)
    then show "status f \<noteq> Departed \<longrightarrow> altitude f = 0 \<and> speed f = 0"
      using gen_altitude_speed [of p w'] by simp
  qed
next
  case (step fs w)
  show ?case
  proof
    fix f' assume "f' \<in> set (fst (tick p w fs))"
    then consider f w' where "f \<in> set fs" "f' = fst (update_flight w' f)"
      | w' where "f' = fst (generateMockFlight p w')"
      using tick_elems by blast
    then show "status f' \<noteq> Departed \<longrightarrow> altitude f' = 0 \<and> speed f' = 0"
    proof cases
      case 1
      with step.IH have "status f \<noteq> Departed \<longrightarrow> altitude f = 0 \<and> speed f = 0" by blast
      from update_flight_altitude_speed [OF this, of w'] 1 show ?thesis by simp
    next
      case 2
      then show ?thesis using gen_altitude_speed [of p w'] by simp
    qed
  qed
qed

text \<open>
  Claim C5. In every reachable state a record with a positive delay has status Delayed.
\<close>

theorem positive_delay_only_when_delayed:
  assumes "reachable p fs"
  shows "\<forall>f \<in> set fs. 0 < isDelayed f \<longrightarrow> status f = Delayed"
  using assms
proof (induction rule: reachable.induct)
  case (seed w)
  show ?case
  proof
    fix f assume "f \<in> set (fst (initial_flights p w))"
    then obtain w' where "f = fst (generateMockFlight p w')"
      using Array_from_elems [of f 50 p w] by (auto simp: initial_flights_def)
    then show "0 < isDelayed f \<longrightarrow> status f = Delayed"
      using gen_delay [of p w'] by simp
  qed
next
  case (step fs w)
  show ?case
  proof
    fix f' assume "f' \<in> set (fst (tick p w fs))"
    then consider f w' where "f \<in> set fs" "f' = fst (update_flight w' f)"
      | w' where "f' = fst (generateMockFlight p w')"
      using tick_elems by blast
    then show "0 < isDelayed f' \<longrightarrow> status f' = Delayed"
    proof cases
      case 1
      with step.IH have "0 < isDelayed f \<longrightarrow> status f = Delayed" by blast
      from update_flight_delay [OF this, of w'] 1 show ?thesis by simp
    next
      case 2
      then show ?thesis using gen_delay [of p w'] by simp
    qed
  qed
qed

lemma round_double_examples:
  "round_double (15/4) = 15/4" "round_double (5/4) = 5/4" "round_double 30 = 30"
proof -
  have "is_double (15/4)" by (rule is_doubleI [of _ 15 "-2"]) simp_all
  then show "round_double (15/4) = 15/4" by (rule is_double_round)
  have "is_double (5/4)" by (rule is_doubleI [of _ 5 "-2"]) simp_all
  then show "round_double (5/4) = 5/4" by (rule is_double_round)
  have "is_double 30" by (rule is_doubleI [of _ 30 0]) simp_all
  then show "round_double 30 = 30" by (rule is_double_round)
qed

lemma is_double_fifteen_sixteenths: "is_double (15/16)"
  by (rule is_doubleI [of _ 15 "-4"]) simp_all

theorem tick_record_transitions_witness:
  "unit_draws (constant_world (1/16)) \<and> double_draws (constant_world (1/16)) \<and>
   fst (map_update (constant_world (1/16))
          [sample_flight\<lparr>status := OnTime\<rparr>, sample_flight\<lparr>status := OnTime\<rparr>]) =
     [sample_flight\<lparr>status := Delayed, isDelayed := 13\<rparr>,
      sample_flight\<lparr>status := Delayed, isDelayed := 13\<rparr>] \<and>
   unit_draws (constant_world (15/16)) \<and> double_draws (constant_world (15/16)) \<and>
   fst (map_update (constant_world (15/16))
          [sample_flight\<lparr>status := Departed, altitude := 31000, speed := 450\<rparr>, sample_flight]) =
     [sample_flight\<lparr>status := Arrived\<rparr>, sample_flight]"
proof -
  have u: "unit_draws (constant_world (1/16))" "unit_draws (constant_world (15/16))"
    by (simp_all add: unit_draws_constant)
  have d: "double_draws (constant_world (1/16))" "double_draws (constant_world (15/16))"
    using double_examples(2) is_double_fifteen_sixteenths by (simp_all add: double_draws_constant)
  have st: "status sample_flight = Delayed" "altitude sample_flight = 0" "speed sample_flight = 0"
    by (simp_all add: sample_flight_def)
  have "process_records (draws (constant_world (1/16))) (nd (constant_world (1/16)))
          [sample_flight\<lparr>status := OnTime\<rparr>, sample_flight\<lparr>status := OnTime\<rparr>] =
        [sample_flight\<lparr>status := Delayed, isDelayed := 13\<rparr>,
         sample_flight\<lparr>status := Delayed, isDelayed := 13\<rparr>]"
    by (simp add: constant_world_def round_double_tenth fmul_def round_double_examples)
  moreover have "process_records (draws (constant_world (15/16))) (nd (constant_world (15/16)))
          [sample_flight\<lparr>status := Departed, altitude := 31000, speed := 450\<rparr>, sample_flight] =
        [sample_flight\<lparr>status := Arrived\<rparr>, sample_flight]"
    using st by (simp add: constant_world_def round_double_tenth round_double_nine_tenths)
  ultimately show ?thesis
    using u d
      tick_record_transitions [OF u(1) d(1), of "[sample_flight\<lparr>status := OnTime\<rparr>, sample_flight\<lparr>status := OnTime\<rparr>]"]
      tick_record_transitions [OF u(2) d(2), of "[sample_flight\<lparr>status := Departed, altitude := 31000, speed := 450\<rparr>, sample_flight]"]
    by simp
qed

lemma length_Array_from [simp]: "length (fst (Array_from n p w)) = n"
  by (induction n arbitrary: w) (simp_all add: split_beta)

lemma length_initial_flights: "length (fst (initial_flights p w)) = 50"
  by (simp add: initial_flights_def)

lemma first_of_Array_from:
  "0 < n \<Longrightarrow> fst (generateMockFlight p w) \<in> set (fst (Array_from n p w))"
  by (cases n) (simp_all add: split_beta)

lemma hd_initial_flights:
  "fst (generateMockFlight p w) \<in> set (fst (initial_flights p w))"
  by (simp add: initial_flights_def first_of_Array_from)

lemma gen_status: "status (fst (generateMockFlight p w)) = pick statuses (draws w (nd w))"
  by (simp add: generateMockFlight_def split_beta Let_def)

lemma gen_isDelayed:
  "isDelayed (fst (generateMockFlight p w)) =
     (if pick statuses (draws w (nd w)) = Delayed then \<lfloor>fmul (draws w (Suc (nd w))) 120\<rfloor> + 10 else 0)"
  by (simp add: generateMockFlight_def split_beta Let_def)

theorem altitude_speed_only_when_departed_witness:
  "reachable demo_platform (fst (initial_flights demo_platform (constant_world 0))) \<and>
   fst (generateMockFlight demo_platform (constant_world 0))
     \<in> set (fst (initial_flights demo_platform (constant_world 0))) \<and>
   status (fst (generateMockFlight demo_platform (constant_world 0))) = OnTime \<and>
   altitude (fst (generateMockFlight demo_platform (constant_world 0))) = 0 \<and>
   speed (fst (generateMockFlight demo_platform (constant_world 0))) = 0"
proof -
  have r: "reachable demo_platform (fst (initial_flights demo_platform (constant_world 0)))"
    by (rule reachable.seed) (simp add: unit_draws_constant)
  have s: "status (fst (generateMockFlight demo_platform (constant_world 0))) = OnTime"
    by (simp add: gen_status constant_world_def pick_def statuses_def)
  show ?thesis
    using r s altitude_speed_only_when_departed [OF r] hd_initial_flights [of demo_platform "constant_world 0"]
    by simp
qed

theorem positive_delay_only_when_delayed_witness:
  "reachable demo_platform (fst (initial_flights demo_platform (constant_world (1/4)))) \<and>
   fst (generateMockFlight demo_platform (constant_world (1/4)))
     \<in> set (fst (initial_flights demo_platform (constant_world (1/4)))) \<and>
   isDelayed (fst (generateMockFlight demo_platform (constant_world (1/4)))) = 40 \<and>
   status (fst (generateMockFlight demo_platform (constant_world (1/4)))) = Delayed"
proof -
  have r: "reachable demo_platform (fst (initial_flights demo_platform (constant_world (1/4))))"
    by (rule reachable.seed) (simp add: unit_draws_constant)
  have d: "isDelayed (fst (generateMockFlight demo_platform (constant_world (1/4)))) = 40"
    by (simp add: gen_isDelayed constant_world_def pick_def statuses_def fmul_def round_double_examples)
  show ?thesis
    using r d positive_delay_only_when_delayed [OF r] hd_initial_flights [of demo_platform "constant_world (1/4)"]
    by simp
qed

lemma push_new_length:
  "length (fst (push_new p w us)) \<le> Suc (length us) \<and> length us \<le> length (fst (push_new p w us))"
  using push_new_cases [of p w us] by auto

lemma push_new_prefix: "take (length us) (fst (push_new p w us)) = us"
  using push_new_cases [of p w us] by auto

lemma tick_drop: "fst (tick p w fs) = drop (length (fst (push_new p (snd (map_update w fs)) (fst (map_update w fs)))) - 50)
    (fst (push_new p (snd (map_update w fs)) (fst (map_update w fs))))"
  by (simp add: tick_unfold slice_last_def)

text \<open>
  Claim C4. Let \<open>all\<close> be the sequence after the per-record update and the optional
  append, and \<open>k\<close> the number of records by which it exceeds 50. The tick returns
  \<open>all\<close> without its first \<open>k\<close> records: what is dropped is the front of the sequence,
  the updated versions of the \<open>k\<close> oldest records, and nothing else; an appended record
  is never among them. When 50 records were there and one is appended, exactly the first
  record goes.
\<close>

theorem tick_drops_oldest:
  "let us = fst (map_update w fs);
       all = fst (push_new p (snd (map_update w fs)) us);
       k = length all - 50
   in (all = us \<or> (\<exists>f. all = us @ [f])) \<and> length us = length fs \<and> k \<le> length fs \<and>
      fst (tick p w fs) = drop k all \<and>
      take k all @ fst (tick p w fs) = all \<and>
      take k all = take k us \<and>
      list_all2 same_details (take k fs) (take k all) \<and>
      (length fs = 50 \<and> all \<noteq> us \<longrightarrow> fst (tick p w fs) = tl all)"
proof -
  define us where "us = fst (map_update w fs)"
  define all where "all = fst (push_new p (snd (map_update w fs)) us)"
  define k where "k = length all - 50"
  have cases: "all = us \<or> (\<exists>f. all = us @ [f])"
    using push_new_cases [of p "snd (map_update w fs)" us] by (auto simp: all_def)
  have len: "length us = length fs"
    by (simp add: us_def)
  have k: "k \<le> length fs"
    using cases len by (auto simp: k_def)
  have t: "fst (tick p w fs) = drop k all"
    by (simp add: tick_drop k_def all_def us_def)
  have pre: "take k all = take k us"
    using cases k len by auto
  have "list_all2 same_details (take k fs) (take k us)"
    using map_update_same_details [of fs w] by (simp add: us_def list_all2_takeI)
  with pre have frame: "list_all2 same_details (take k fs) (take k all)"
    by simp
  have one: "length fs = 50 \<and> all \<noteq> us \<longrightarrow> fst (tick p w fs) = tl all"
  proof
    assume a: "length fs = 50 \<and> all \<noteq> us"
    with cases len have "length all = 51" by auto
    then have "k = 1" by (simp add: k_def)
    with t show "fst (tick p w fs) = tl all" by (simp add: drop_Suc)
  qed
  have app: "take k all @ fst (tick p w fs) = all"
    by (simp add: t)
  from cases len k t app pre frame one show ?thesis
    unfolding Let_def us_def [symmetric] all_def [symmetric] k_def [symmetric]
    by (intro conjI) assumption+
qed

text \<open>
  Claim C10. With \<open>k\<close> the number of records a tick drops from the front, the records
  that survive are the old records from position \<open>k\<close> on, in the same order, and each
  has the id, flight number, origin, destination, estimated arrival, actual departure,
  aircraft type, gate, terminal and route it had before; at most one record follows them.
\<close>

theorem tick_frame:
  "let k = length (fst (push_new p (snd (map_update w fs)) (fst (map_update w fs)))) - 50
   in k \<le> length fs \<and>
      list_all2 same_details (drop k fs) (take (length fs - k) (fst (tick p w fs))) \<and>
      length (fst (tick p w fs)) \<le> Suc (length fs - k)"
proof -
  define us where "us = fst (map_update w fs)"
  define all where "all = fst (push_new p (snd (map_update w fs)) us)"
  define k where "k = length all - 50"
  have cases: "all = us \<or> (\<exists>f. all = us @ [f])"
    using push_new_cases [of p "snd (map_update w fs)" us] by (auto simp: all_def)
  have len: "length us = length fs"
    by (simp add: us_def)
  have k: "k \<le> length fs"
    using cases len by (auto simp: k_def)
  have t: "fst (tick p w fs) = drop k all"
    by (simp add: tick_drop k_def all_def us_def)
  have "take (length fs - k) (drop k all) = drop k us"
    using cases k len by auto
  moreover have "list_all2 same_details (drop k fs) (drop k us)"
    using map_update_same_details [of fs w] by (simp add: us_def list_all2_dropI)
  ultimately have frame: "list_all2 same_details (drop k fs) (take (length fs - k) (fst (tick p w fs)))"
    by (simp add: t)
  have "length (fst (tick p w fs)) \<le> Suc (length fs - k)"
    using cases len by (auto simp: t)
  with k frame show ?thesis
    unfolding Let_def us_def [symmetric] all_def [symmetric] k_def [symmetric]
    by (intro conjI) assumption+
qed

lemma push_new_appends:
  "draws w (nd w) < round_double 0.2 \<Longrightarrow> fst (push_new p w us) = us @ [fst (generateMockFlight p (snd (Math_random w)))]"
  by (simp add: push_new_def split_beta)

theorem tick_drops_oldest_witness:
  "length (fst (initial_flights demo_platform (constant_world 0))) = 50 \<and>
   fst (push_new demo_platform
          (snd (map_update (constant_world 0) (fst (initial_flights demo_platform (constant_world 0)))))
          (fst (map_update (constant_world 0) (fst (initial_flights demo_platform (constant_world 0))))))
     \<noteq> fst (map_update (constant_world 0) (fst (initial_flights demo_platform (constant_world 0)))) \<and>
   fst (tick demo_platform (constant_world 0) (fst (initial_flights demo_platform (constant_world 0)))) =
     tl (fst (push_new demo_platform
          (snd (map_update (constant_world 0) (fst (initial_flights demo_platform (constant_world 0)))))
          (fst (map_update (constant_world 0) (fst (initial_flights demo_platform (constant_world 0)))))))"
proof -
  let ?fs = "fst (initial_flights demo_platform (constant_world 0))"
  let ?w1 = "snd (map_update (constant_world 0) ?fs)"
  have "draws ?w1 (nd ?w1) < round_double 0.2"
    by (simp add: constant_world_def round_double_fifth)
  then have ne: "fst (push_new demo_platform ?w1 (fst (map_update (constant_world 0) ?fs)))
      \<noteq> fst (map_update (constant_world 0) ?fs)"
    by (simp add: push_new_appends)
  have len: "length ?fs = 50"
    by (rule length_initial_flights)
  have "length ?fs = 50 \<and>
        fst (push_new demo_platform ?w1 (fst (map_update (constant_world 0) ?fs)))
          \<noteq> fst (map_update (constant_world 0) ?fs) \<longrightarrow>
        fst (tick demo_platform (constant_world 0) ?fs) =
          tl (fst (push_new demo_platform ?w1 (fst (map_update (constant_world 0) ?fs))))"
    using tick_drops_oldest [of "constant_world 0" ?fs demo_platform]
    unfolding Let_def by blast
  with len ne show ?thesis by blast
qed

theorem tick_frame_witness:
  "list_all2 same_details [sample_flight]
     (take 1 (fst (tick demo_platform (constant_world (1/2)) [sample_flight])))"
proof -
  let ?w = "constant_world (1/2)"
  let ?all = "fst (push_new demo_platform (snd (map_update ?w [sample_flight]))
                 (fst (map_update ?w [sample_flight])))"
  have "length ?all \<le> 2"
    using push_new_length [of demo_platform "snd (map_update ?w [sample_flight])"
        "fst (map_update ?w [sample_flight])"]
    by (simp only: length_map_update) simp
  then have k: "length ?all - 50 = 0"
    by simp
  have "list_all2 same_details (drop 0 [sample_flight])
          (take (length [sample_flight] - 0) (fst (tick demo_platform ?w [sample_flight])))"
    using tick_frame [of demo_platform ?w "[sample_flight]"]
    unfolding Let_def k by blast
  then show ?thesis by simp
qed

section \<open>Properties of the chart data\<close>

lemma map_fst_bump:
  "map fst (bump k acc) = (if k \<in> fst ` set acc then map fst acc else map fst acc @ [k])"
proof (induction acc)
  case Nil
  show ?case by simp
next
  case (Cons kc acc)
  obtain k' c where kc: "kc = (k', c)" by (cases kc)
  show ?case
  proof (cases "k' = k")
    case True
    then show ?thesis by (simp add: kc)
  next
    case False
    then show ?thesis using Cons.IH by (simp add: kc)
  qed
qed

lemma keys_bump: "fst ` set (bump k acc) = insert k (fst ` set acc)"
  using map_fst_bump [of k acc, THEN arg_cong, of set] by (auto split: if_splits)

lemma distinct_bump: "distinct (map fst acc) \<Longrightarrow> distinct (map fst (bump k acc))"
  by (simp add: map_fst_bump)

lemma sum_bump: "sum_list (map snd (bump k acc)) = Suc (sum_list (map snd acc))"
  by (induction acc) auto

lemma map_of_bump:
  "map_of (bump k acc) k' =
     (if k' = k then Some (case map_of acc k of None \<Rightarrow> 1 | Some c \<Rightarrow> Suc c) else map_of acc k')"
  by (induction acc) auto

lemma keys_fold_bump: "fst ` set (fold bump ks acc) = fst ` set acc \<union> set ks"
  by (induction ks arbitrary: acc) (simp_all add: keys_bump)

lemma distinct_fold_bump: "distinct (map fst acc) \<Longrightarrow> distinct (map fst (fold bump ks acc))"
  by (induction ks arbitrary: acc) (auto simp: distinct_bump)

lemma sum_fold_bump: "sum_list (map snd (fold bump ks acc)) = sum_list (map snd acc) + length ks"
  by (induction ks arbitrary: acc) (auto simp: sum_bump)

lemma map_of_fold_bump:
  "map_of (fold bump ks acc) k =
     (case map_of acc k of
        None \<Rightarrow> if count_list ks k = 0 then None else Some (count_list ks k)
      | Some c \<Rightarrow> Some (c + count_list ks k))"
  by (induction ks arbitrary: acc) (auto simp: map_of_bump split: option.splits)

lemma fold_bump_entries:
  assumes "(k, c) \<in> set (fold bump ks [])"
  shows "c = count_list ks k \<and> 0 < c \<and> k \<in> set ks"
proof -
  have "distinct (map fst (fold bump ks []))"
    by (simp add: distinct_fold_bump)
  with assms have "map_of (fold bump ks []) k = Some c"
    by simp
  then have "c = count_list ks k \<and> 0 < c"
    by (auto simp: map_of_fold_bump split: if_splits)
  moreover from assms have "k \<in> fst ` set (fold bump ks [])"
    by force
  then have "k \<in> set ks" by (simp add: keys_fold_bump)
  ultimately show ?thesis by simp
qed

lemma statusCounts_fold: "statusCounts fs = fold bump (map (\<lambda>f. status_str (status f)) fs) []"
  by (simp add: statusCounts_def fold_map comp_def)

lemma inj_status_str: "status_str s = status_str t \<longleftrightarrow> s = t"
  by (cases s; cases t) simp_all

lemma inj_airport_str: "airport_str a = airport_str b \<longleftrightarrow> a = b"
  by (cases a; cases b) simp_all

lemma wrapLabel_short: "length s \<le> 16 \<Longrightarrow> wrapLabel s = Str s"
  by (simp add: wrapLabel_def maxLength_def)

lemma wrapLabel_status_str: "wrapLabel (status_str s) = Str (status_str s)"
  by (cases s) (simp_all add: wrapLabel_short)

lemma wrapLabel_airport_str: "wrapLabel (airport_str a) = Str (airport_str a)"
  by (cases a) (simp_all add: wrapLabel_short)

lemma count_list_map_inj:
  assumes "\<And>x y. g x = g y \<longleftrightarrow> x = y"
  shows "count_list (map (\<lambda>f. g (h f)) fs) (g a) = length (filter (\<lambda>f. h f = a) fs)"
  by (induction fs) (simp_all add: assms)

lemma labels_status:
  "labels (getFlightStatusData fs) = map Str (map fst (statusCounts fs))"
proof -
  have "\<forall>k \<in> fst ` set (statusCounts fs). wrapLabel k = Str k"
    by (auto simp: statusCounts_fold keys_fold_bump wrapLabel_status_str)
  then show ?thesis
    by (simp add: getFlightStatusData_def)
qed

text \<open>
  Claim C6. The counts of \<open>getFlightStatusData\<close> add up to the number of records (also
  for the empty sequence); the labels are exactly the statuses that occur, each once; no
  count is zero, and the count paired with a status is the number of records that have it.
\<close>

theorem status_distribution_totals:
  "sum_list (data (getFlightStatusData fs)) = length fs \<and>
   set (labels (getFlightStatusData fs)) = (\<lambda>s. Str (status_str s)) ` status ` set fs \<and>
   distinct (labels (getFlightStatusData fs)) \<and>
   length (labels (getFlightStatusData fs)) = length (data (getFlightStatusData fs)) \<and>
   0 \<notin> set (data (getFlightStatusData fs)) \<and>
   (\<forall>s \<in> status ` set fs.
      (Str (status_str s), length (filter (\<lambda>f. status f = s) fs))
        \<in> set (zip (labels (getFlightStatusData fs)) (data (getFlightStatusData fs))))"
proof -
  let ?ks = "map (\<lambda>f. status_str (status f)) fs"
  have total: "sum_list (data (getFlightStatusData fs)) = length fs"
    by (simp add: getFlightStatusData_def statusCounts_fold sum_fold_bump)
  have keys: "fst ` set (statusCounts fs) = (\<lambda>s. status_str s) ` status ` set fs"
    by (simp add: statusCounts_fold keys_fold_bump image_image)
  have "set (labels (getFlightStatusData fs)) = Str ` fst ` set (statusCounts fs)"
    unfolding labels_status by (simp add: image_image)
  with keys have labs:
    "set (labels (getFlightStatusData fs)) = (\<lambda>s. Str (status_str s)) ` status ` set fs"
    by (simp add: image_image)
  have "distinct (map fst (statusCounts fs))"
    unfolding statusCounts_fold by (rule distinct_fold_bump) simp
  then have "distinct (map Str (map fst (statusCounts fs)))"
    by (subst distinct_map) (simp add: inj_on_def)
  then have dist: "distinct (labels (getFlightStatusData fs))"
    by (simp only: labels_status)
  have len: "length (labels (getFlightStatusData fs)) = length (data (getFlightStatusData fs))"
    by (simp add: getFlightStatusData_def)
  have pos: "0 \<notin> set (data (getFlightStatusData fs))"
    using fold_bump_entries [of _ 0 ?ks]
    by (auto simp: getFlightStatusData_def statusCounts_fold)
  have cnt: "\<forall>s \<in> status ` set fs.
      (Str (status_str s), length (filter (\<lambda>f. status f = s) fs))
        \<in> set (zip (labels (getFlightStatusData fs)) (data (getFlightStatusData fs)))"
  proof
    fix s assume "s \<in> status ` set fs"
    then have "status_str s \<in> set ?ks" by auto
    then have "count_list ?ks (status_str s) \<noteq> 0"
      by (simp add: count_list_0_iff)
    then have "map_of (statusCounts fs) (status_str s) = Some (count_list ?ks (status_str s))"
      by (simp add: statusCounts_fold map_of_fold_bump)
    then have "(status_str s, count_list ?ks (status_str s)) \<in> set (statusCounts fs)"
      by (rule map_of_SomeD)
    moreover have "count_list ?ks (status_str s) = length (filter (\<lambda>f. status f = s) fs)"
      by (rule count_list_map_inj) (rule inj_status_str)
    moreover have "zip (labels (getFlightStatusData fs)) (data (getFlightStatusData fs))
                    = map (\<lambda>(k, c). (Str k, c)) (statusCounts fs)"
      unfolding labels_status
      by (simp add: getFlightStatusData_def zip_map_map split_beta zip_same_conv_map)
    ultimately show "(Str (status_str s), length (filter (\<lambda>f. status f = s) fs))
        \<in> set (zip (labels (getFlightStatusData fs)) (data (getFlightStatusData fs)))"
      by force
  qed
  from total labs dist len pos cnt show ?thesis
    by (intro conjI) assumption+
qed

theorem status_distribution_totals_witness:
  "sum_list (data (getFlightStatusData [sample_flight, sample_flight\<lparr>status := OnTime\<rparr>, sample_flight])) = 3 \<and>
   (Str ''Delayed'', 2) \<in> set (zip
      (labels (getFlightStatusData [sample_flight, sample_flight\<lparr>status := OnTime\<rparr>, sample_flight]))
      (data (getFlightStatusData [sample_flight, sample_flight\<lparr>status := OnTime\<rparr>, sample_flight])))"
proof -
  let ?fs = "[sample_flight, sample_flight\<lparr>status := OnTime\<rparr>, sample_flight]"
  have st: "status sample_flight = Delayed"
    by (simp add: sample_flight_def)
  have mem: "Delayed \<in> status ` set ?fs"
    by (simp add: st)
  have cnt: "length (filter (\<lambda>f. status f = Delayed) ?fs) = 2"
    by (simp add: st)
  from status_distribution_totals [of ?fs]
  have total: "sum_list (data (getFlightStatusData ?fs)) = length ?fs"
    and all: "\<forall>s \<in> status ` set ?fs.
      (Str (status_str s), length (filter (\<lambda>f. status f = s) ?fs))
        \<in> set (zip (labels (getFlightStatusData ?fs)) (data (getFlightStatusData ?fs)))"
    by blast+
  from all mem have "(Str (status_str Delayed), length (filter (\<lambda>f. status f = Delayed) ?fs))
        \<in> set (zip (labels (getFlightStatusData ?fs)) (data (getFlightStatusData ?fs)))"
    by (rule bspec)
  with cnt have "(Str ''Delayed'', 2)
        \<in> set (zip (labels (getFlightStatusData ?fs)) (data (getFlightStatusData ?fs)))"
    by simp
  with total show ?thesis by simp
qed

lemma airportCounts_fold_gen:
  "fold (\<lambda>flight acc. bump (airport_str (destination flight)) (bump (airport_str (origin flight)) acc)) fs acc
     = fold bump (airport_keys fs) acc"
  by (induction fs arbitrary: acc) (simp_all add: airport_keys_def)

lemma airportCounts_fold: "airportCounts fs = fold bump (airport_keys fs) []"
  by (simp add: airportCounts_def airportCounts_fold_gen)

lemma set_airport_keys: "set (airport_keys fs) = airport_str ` (origin ` set fs \<union> destination ` set fs)"
  by (induction fs) (auto simp: airport_keys_def)

lemma count_airport_keys: "count_list (airport_keys fs) (airport_str a) = movements fs a"
  by (induction fs) (auto simp: airport_keys_def movements_def inj_airport_str)

lemma set_insert_by: "set (insert_by cmp x xs) = insert x (set xs)"
  by (induction xs) auto

lemma length_insert_by: "length (insert_by cmp x xs) = Suc (length xs)"
  by (induction xs) auto

lemma set_sort_by: "set (sort_by cmp xs) = set xs"
  by (induction xs) (simp_all add: sort_by_def set_insert_by)

lemma length_sort_by: "length (sort_by cmp xs) = length xs"
  by (induction xs) (simp_all add: sort_by_def length_insert_by)

lemma distinct_insert_by: "distinct (map f (insert_by cmp x xs)) = distinct (map f (x # xs))"
  by (induction xs) (auto simp: set_insert_by)

lemma distinct_sort_by: "distinct (map f (sort_by cmp xs)) = distinct (map f xs)"
  by (induction xs) (simp_all add: sort_by_def distinct_insert_by set_insert_by set_sort_by [unfolded sort_by_def])

lemma sorted_insert_by_count:
  "sorted_wrt (\<lambda>a b. snd b \<le> snd a) xs \<Longrightarrow> sorted_wrt (\<lambda>a b. snd b \<le> (snd a :: nat)) (insert_by by_count_desc x xs)"
  by (induction xs) (auto simp: set_insert_by by_count_desc_def)

lemma sorted_sort_by_count:
  "sorted_wrt (\<lambda>a b. snd b \<le> (snd a :: nat)) (sort_by by_count_desc xs)"
proof (induction xs)
  case Nil
  show ?case by (simp add: sort_by_def)
next
  case (Cons x xs)
  then show ?case
    using sorted_insert_by_count [of "sort_by by_count_desc xs" x]
    by (simp add: sort_by_def)
qed

lemma airportCounts_entries:
  assumes "(k, c) \<in> set (airportCounts fs)"
  shows "\<exists>a. k = airport_str a \<and> c = movements fs a \<and> 0 < c"
proof -
  from assms have e: "c = count_list (airport_keys fs) k \<and> 0 < c \<and> k \<in> set (airport_keys fs)"
    unfolding airportCounts_fold by (rule fold_bump_entries)
  then obtain a where "k = airport_str a"
    by (auto simp: set_airport_keys)
  with e show ?thesis
    by (auto simp: count_airport_keys)
qed

lemma airportCounts_complete:
  assumes "0 < movements fs a"
  shows "(airport_str a, movements fs a) \<in> set (airportCounts fs)"
proof -
  from assms have "map_of (airportCounts fs) (airport_str a) = Some (movements fs a)"
    by (simp add: airportCounts_fold map_of_fold_bump count_airport_keys)
  then show ?thesis by (rule map_of_SomeD)
qed

lemma distinct_airportCounts: "distinct (map fst (airportCounts fs))"
  unfolding airportCounts_fold by (rule distinct_fold_bump) simp

lemma length_airportCounts:
  "length (airportCounts fs) = card (origin ` set fs \<union> destination ` set fs)"
proof -
  have "length (airportCounts fs) = length (map fst (airportCounts fs))"
    by simp
  also have "\<dots> = card (set (map fst (airportCounts fs)))"
    using distinct_airportCounts [of fs] by (simp only: distinct_card)
  also have "set (map fst (airportCounts fs)) = airport_str ` (origin ` set fs \<union> destination ` set fs)"
    by (simp add: airportCounts_fold keys_fold_bump set_airport_keys)
  also have "card (airport_str ` (origin ` set fs \<union> destination ` set fs))
               = card (origin ` set fs \<union> destination ` set fs)"
    by (rule card_image) (simp add: inj_on_def inj_airport_str)
  finally show ?thesis .
qed

lemma sortedAirports_subset: "set (sortedAirports fs) \<subseteq> set (airportCounts fs)"
  using set_take_subset [of 5 "sort_by by_count_desc (airportCounts fs)"]
  by (simp add: sortedAirports_def set_sort_by)

lemma labels_top:
  "labels (getTopAirportsData fs) = map (\<lambda>(k, c). Str k) (sortedAirports fs)"
proof -
  have "\<forall>kc \<in> set (sortedAirports fs). wrapLabel (fst kc) = Str (fst kc)"
  proof
    fix kc assume "kc \<in> set (sortedAirports fs)"
    then have "(fst kc, snd kc) \<in> set (airportCounts fs)"
      using sortedAirports_subset [of fs] by auto
    then obtain a where "fst kc = airport_str a"
      using airportCounts_entries by blast
    then show "wrapLabel (fst kc) = Str (fst kc)"
      by (simp add: wrapLabel_airport_str)
  qed
  then show ?thesis
    by (simp add: getTopAirportsData_def split_beta)
qed

lemma zip_top:
  "zip (labels (getTopAirportsData fs)) (data (getTopAirportsData fs))
     = map (\<lambda>(k, c). (Str k, c)) (sortedAirports fs)"
  unfolding labels_top
  by (simp add: getTopAirportsData_def zip_map_map split_beta zip_same_conv_map)

text \<open>
  Claim C7. \<open>getTopAirportsData\<close> (the source fixes \<open>n = 5\<close>) returns at most
  \<open>min 5 d\<close> pairs, \<open>d\<close> the number of distinct airports that occur as origin or
  destination; the codes are distinct; the number paired with a code is the number of
  times the code occurs as origin or destination; the numbers are in non-increasing
  order; and no airport left out occurs more often than one that is listed.
\<close>

theorem top_airports:
  "length (data (getTopAirportsData fs)) \<le> min 5 (card (origin ` set fs \<union> destination ` set fs)) \<and>
   length (labels (getTopAirportsData fs)) = length (data (getTopAirportsData fs)) \<and>
   distinct (labels (getTopAirportsData fs)) \<and>
   (\<forall>(l, c) \<in> set (zip (labels (getTopAirportsData fs)) (data (getTopAirportsData fs))).
      \<exists>a. l = Str (airport_str a) \<and> c = movements fs a \<and> 0 < c) \<and>
   sorted_wrt (\<lambda>c c'. c' \<le> c) (data (getTopAirportsData fs)) \<and>
   (\<forall>a. Str (airport_str a) \<notin> set (labels (getTopAirportsData fs)) \<longrightarrow>
      (\<forall>c \<in> set (data (getTopAirportsData fs)). movements fs a \<le> c))"
proof -
  let ?sorted = "sort_by by_count_desc (airportCounts fs)"
  have len: "length (data (getTopAirportsData fs)) \<le> min 5 (card (origin ` set fs \<union> destination ` set fs))"
    by (simp add: getTopAirportsData_def sortedAirports_def length_sort_by length_airportCounts)
  have same: "length (labels (getTopAirportsData fs)) = length (data (getTopAirportsData fs))"
    by (simp add: getTopAirportsData_def)
  have "distinct (map fst ?sorted)"
    by (simp only: distinct_sort_by distinct_airportCounts)
  then have "distinct (map fst (sortedAirports fs))"
    unfolding sortedAirports_def take_map [symmetric] by (rule distinct_take)
  then have "distinct (map Str (map fst (sortedAirports fs)))"
    by (subst distinct_map) (simp add: inj_on_def)
  then have dist: "distinct (labels (getTopAirportsData fs))"
    by (simp add: labels_top case_prod_unfold comp_def)
  have freq: "\<forall>(l, c) \<in> set (zip (labels (getTopAirportsData fs)) (data (getTopAirportsData fs))).
      \<exists>a. l = Str (airport_str a) \<and> c = movements fs a \<and> 0 < c"
    unfolding zip_top
    using sortedAirports_subset [of fs] airportCounts_entries [of _ _ fs]
    by auto
  have s: "sorted_wrt (\<lambda>a b. snd b \<le> snd a) ?sorted"
    by (rule sorted_sort_by_count)
  then have "sorted_wrt (\<lambda>a b. snd b \<le> snd a) (sortedAirports fs)"
    unfolding sortedAirports_def by (rule sorted_wrt_take)
  then have desc: "sorted_wrt (\<lambda>c c'. c' \<le> c) (data (getTopAirportsData fs))"
    by (simp add: getTopAirportsData_def sorted_wrt_map split_beta)
  have top: "\<forall>a. Str (airport_str a) \<notin> set (labels (getTopAirportsData fs)) \<longrightarrow>
      (\<forall>c \<in> set (data (getTopAirportsData fs)). movements fs a \<le> c)"
  proof (intro allI impI ballI)
    fix a c
    assume out: "Str (airport_str a) \<notin> set (labels (getTopAirportsData fs))"
      and c: "c \<in> set (data (getTopAirportsData fs))"
    from c obtain k where kc: "(k, c) \<in> set (take 5 ?sorted)"
      by (auto simp: getTopAirportsData_def sortedAirports_def)
    show "movements fs a \<le> c"
    proof (cases "0 < movements fs a")
      case False
      then show ?thesis by simp
    next
      case True
      then have "(airport_str a, movements fs a) \<in> set ?sorted"
        by (simp add: set_sort_by airportCounts_complete)
      then have "(airport_str a, movements fs a) \<in> set (take 5 ?sorted) \<union> set (drop 5 ?sorted)"
        by (simp only: set_append [symmetric] append_take_drop_id)
      moreover from out have "(airport_str a, movements fs a) \<notin> set (take 5 ?sorted)"
        by (force simp: labels_top sortedAirports_def)
      ultimately have d: "(airport_str a, movements fs a) \<in> set (drop 5 ?sorted)"
        by blast
      from s have "sorted_wrt (\<lambda>a b. snd b \<le> snd a) (take 5 ?sorted @ drop 5 ?sorted)"
        by simp
      then have "\<forall>x \<in> set (take 5 ?sorted). \<forall>y \<in> set (drop 5 ?sorted). snd y \<le> snd x"
        by (simp only: sorted_wrt_append) blast
      with kc d show ?thesis by force
    qed
  qed
  from len same dist freq desc top show ?thesis
    by (intro conjI) assumption+
qed

lemma top_example:
  "getTopAirportsData [sample_flight, sample_flight\<lparr>origin := DXB, destination := JFK\<rparr>, sample_flight\<lparr>origin := JFK, destination := JFK\<rparr>]
     = \<lparr>labels = [Str ''JFK'', Str ''LHR'', Str ''DXB''], data = [4, 1, 1]\<rparr>"
  by (simp add: getTopAirportsData_def sortedAirports_def airportCounts_def sort_by_def
      by_count_desc_def sample_flight_def wrapLabel_def maxLength_def)

theorem top_airports_witness:
  "length (data (getTopAirportsData [sample_flight, sample_flight\<lparr>origin := DXB, destination := JFK\<rparr>])) \<le> 3 \<and>
   sorted_wrt (\<lambda>c c'. c' \<le> c)
     (data (getTopAirportsData [sample_flight, sample_flight\<lparr>origin := DXB, destination := JFK\<rparr>]))"
proof -
  let ?fs = "[sample_flight, sample_flight\<lparr>origin := DXB, destination := JFK\<rparr>]"
  have "origin ` set ?fs \<union> destination ` set ?fs = {JFK, LHR, DXB}"
    by (auto simp: sample_flight_def)
  then have "card (origin ` set ?fs \<union> destination ` set ?fs) = 3"
    by simp
  with top_airports [of ?fs] show ?thesis
    by simp
qed

section \<open>Properties of the search\<close>

lemma includes_str_sublist: "includes_str s q \<longleftrightarrow> sublist q s"
  by (induction s) (simp_all add: sublist_Cons_right)

lemma sublist_map_iff:
  "sublist (map h q) (map h s) \<longleftrightarrow> (\<exists>u. sublist u s \<and> map h u = map h q)"
proof
  assume "sublist (map h q) (map h s)"
  then obtain ps ss where "map h s = ps @ map h q @ ss"
    by (auto simp: sublist_def)
  then have "\<exists>us vs. s = us @ vs \<and> ps = map h us \<and> map h q @ ss = map h vs"
    by (rule iffD1 [OF map_eq_append_conv])
  then obtain s1 r where r: "s = s1 @ r" "map h q @ ss = map h r"
    by blast
  from r(2) have "\<exists>us vs. r = us @ vs \<and> map h q = map h us \<and> ss = map h vs"
    by (rule iffD1 [OF append_eq_map_conv])
  then obtain s2 s3 where "r = s2 @ s3" "map h q = map h s2"
    by blast
  with r(1) have "s = s1 @ s2 @ s3" "map h s2 = map h q"
    by simp_all
  then show "\<exists>u. sublist u s \<and> map h u = map h q"
    by (auto simp: sublist_def)
next
  assume "\<exists>u. sublist u s \<and> map h u = map h q"
  then obtain u ps ss where "s = ps @ u @ ss" "map h u = map h q"
    by (auto simp: sublist_def)
  then have "map h s = map h ps @ map h q @ map h ss"
    by simp
  then show "sublist (map h q) (map h s)"
    unfolding sublist_def by blast
qed

lemma includes_lower: "includes_str (toLowerCase s) (toLowerCase q) \<longleftrightarrow> ci_substring q s"
  by (simp add: includes_str_sublist toLowerCase_def sublist_map_iff ci_substring_def same_up_to_case_def)

lemma matches_iff:
  "matches q f \<longleftrightarrow>
     ci_substring q (flightNumber f) \<or> ci_substring q (airport_str (origin f)) \<or>
     ci_substring q (airport_str (destination f)) \<or> ci_substring q (status_str (status f))"
  by (simp only: matches_def includes_lower)

lemma toLowerCase_examples:
  "toLowerCase ''JFK'' = ''jfk''" "toLowerCase ''jfk'' = ''jfk''"
  "toLowerCase ''xyz'' = ''xyz''" "toLowerCase ''ABC123'' = ''abc123''"
  "toLowerCase ''LHR'' = ''lhr''" "toLowerCase ''Delayed'' = ''delayed''"
  by (simp_all add: toLowerCase_def lower_char_def char_of_def bit_Suc_0_iff)

lemma matches_example:
  assumes "flightNumber f = ''ABC123''" "origin f = JFK" "destination f = LHR" "status f = Delayed"
  shows "matches ''jfk'' f" "\<not> matches ''xyz'' f"
  using assms by (simp_all add: matches_def toLowerCase_examples)

text \<open>
  Claim C8. A record matches a query exactly when the query is, up to the case of
  letters, a substring of its flight number, its origin, its destination or its status.
  A record with flight number ABC123, origin JFK, destination LHR and status Delayed
  matches the query \<open>jfk\<close> and does not match \<open>xyz\<close>.
\<close>

theorem search_matches:
  "(matches q f \<longleftrightarrow>
      ci_substring q (flightNumber f) \<or> ci_substring q (airport_str (origin f)) \<or>
      ci_substring q (airport_str (destination f)) \<or> ci_substring q (status_str (status f))) \<and>
   (flightNumber f = ''ABC123'' \<and> origin f = JFK \<and> destination f = LHR \<and> status f = Delayed \<longrightarrow>
      matches ''jfk'' f \<and> \<not> matches ''xyz'' f \<and>
      filteredFlights ''jfk'' [f] = [f] \<and> filteredFlights ''xyz'' [f] = [])"
  using matches_iff [of q f] matches_example [of f]
  by (simp add: filteredFlights_def)

theorem search_matches_witness:
  "flightNumber sample_flight = ''ABC123'' \<and> origin sample_flight = JFK \<and>
   destination sample_flight = LHR \<and> status sample_flight = Delayed \<and>
   matches ''jfk'' sample_flight \<and> \<not> matches ''xyz'' sample_flight \<and>
   filteredFlights ''jfk'' [sample_flight] = [sample_flight] \<and>
   filteredFlights ''xyz'' [sample_flight] = []"
proof -
  have h: "flightNumber sample_flight = ''ABC123'' \<and> origin sample_flight = JFK \<and>
      destination sample_flight = LHR \<and> status sample_flight = Delayed"
    by (simp add: sample_flight_def)
  from search_matches [of "''jfk''" sample_flight] h show ?thesis
    by blast
qed

section \<open>Properties of the label wrapping\<close>


text \<open>A word is never broken: a label that is one word of 20 characters comes back as
  one line.\<close>

lemma wrap_single_long_word:
  "wrapLabel ''Supercalifragilistic'' = Lines [''Supercalifragilistic''] \<and>
   \<not> length ''Supercalifragilistic'' \<le> 16"
  by (simp add: wrapLabel_def maxLength_def split_def sep_def push_line_def trim_def is_space_def)






lemma wrap_lines_Nil [simp]: "wrap_lines lines cur [] = push_line lines cur"
  by (simp add: wrap_lines_def)






























text \<open>The length of a line is measured as the line is built: with two spaces in a row the
  empty piece between them takes a place on the line, which the trimming gives back.\<close>

lemma wrap_double_space:
  "wrapLabel ''aaaaaaaaaaaaaa  b'' = Lines [''aaaaaaaaaaaaaa'', ''b''] \<and>
   greedy_lines [] (split CHR '' '' ''aaaaaaaaaaaaaa  b'') = [''aaaaaaaaaaaaaa '', ''b'']"
  by (simp add: wrapLabel_def maxLength_def split_def sep_def push_line_def trim_def is_space_def)






end
